theory Spec2Isabelle
  imports Complex_Main "HOL-Library.Sublist"
begin

section \<open>JavaScript values used by the analysers\<close>

text \<open>
  The functions \<^verbatim>\<open>improvedAnalyzeData\<close> and \<^verbatim>\<open>recalculateWithPSPExclusions\<close> of
  \<^verbatim>\<open>src/lib/improved-analyzer.ts\<close>, \<^verbatim>\<open>analyzeData\<close> and \<^verbatim>\<open>analyzeTimeData\<close> with
  \<^verbatim>\<open>getISOWeek\<close> (module \<^verbatim>\<open>time-analyzer\<close>) are embedded as HOL functions.

  \<^item> A \<^verbatim>\<open>Record<string, T>\<close> is an association list in insertion order with unique
    keys; \<^verbatim>\<open>Object.values\<close> and \<^verbatim>\<open>Object.entries\<close> read it in that order.
    (JavaScript enumerates integer-like keys first; this only permutes the entries, and
    every result below is a count, a sum or a statement about each entry.) The list holds
    the own properties. A read \<^verbatim>\<open>r[k]\<close> also finds the properties that a plain object
    inherits from \<^verbatim>\<open>Object.prototype\<close> (\<^verbatim>\<open>constructor\<close>, \<^verbatim>\<open>toString\<close>, ...): these
    are the \<open>inherited_names\<close>, and \<open>init_entry\<close>, \<open>init_own_entry\<close> and \<open>set_entry\<close>
    say what the code does with such a key.
  \<^item> Strings are lists of 8-bit characters; \<^verbatim>\<open>toLowerCase\<close> and \<^verbatim>\<open>trim\<close> are
    modelled on ASCII.
  \<^item> Counters are natural numbers. A computed \<^verbatim>\<open>number\<close> is a \<open>jsnum\<close>: an exact
    rational, \<^verbatim>\<open>Infinity\<close> or \<^verbatim>\<open>NaN\<close>, so that a division by zero is visible.
  \<^item> A \<^verbatim>\<open>Date\<close> is the record of what the code observes of it. The time value, the year
    and \<^verbatim>\<open>new Date(year, 0, 1)\<close> follow ECMA-262 for a host time zone (\<open>date_in_zone\<close>).
\<close>

subsection \<open>Strings\<close>

definition or_default :: "string option \<Rightarrow> string \<Rightarrow> string" where
  \<comment> \<open>\<^verbatim>\<open>x || d\<close> for an optional string: \<^verbatim>\<open>undefined\<close> and \<^verbatim>\<open>""\<close> are falsy.\<close>
  "or_default x d = (case x of None \<Rightarrow> d | Some s \<Rightarrow> if s = [] then d else s)"

definition is_space :: "char \<Rightarrow> bool" where
  "is_space c = (of_char c \<in> {9, 10, 11, 12, 13, 32 :: nat})"

definition trim :: "string \<Rightarrow> string" where
  "trim s = rev (dropWhile is_space (rev (dropWhile is_space s)))"

definition lower_char :: "char \<Rightarrow> char" where
  "lower_char c =
     (let n = (of_char c :: nat) in if 65 \<le> n \<and> n \<le> 90 then char_of (n + 32) else c)"

definition toLowerCase :: "string \<Rightarrow> string" where
  "toLowerCase s = map lower_char s"

fun str_includes :: "string \<Rightarrow> string \<Rightarrow> bool" where
  "str_includes [] n = (n = [])"
| "str_includes (c # cs) n = (prefix n (c # cs) \<or> str_includes cs n)"

definition isApproved :: "string \<Rightarrow> bool" where
  \<comment> \<open>\<^verbatim>\<open>status.toLowerCase().includes("approved") || ....includes("success")\<close>\<close>
  "isApproved st =
     (let s = toLowerCase st in str_includes s ''approved'' \<or> str_includes s ''success'')"

definition isDeclined :: "string \<Rightarrow> bool" where
  \<comment> \<open>\<^verbatim>\<open>includes("declined") || includes("fail") || includes("error")\<close> on the lower-cased status\<close>
  "isDeclined st =
     (let s = toLowerCase st
      in str_includes s ''declined'' \<or> str_includes s ''fail'' \<or> str_includes s ''error'')"

subsection \<open>Numbers\<close>

datatype jsnum = Num rat | Infinity | NaN

definition js_div :: "nat \<Rightarrow> nat \<Rightarrow> jsnum" where
  \<comment> \<open>\<^verbatim>\<open>a / b\<close> for two counters\<close>
  "js_div a b =
     (if b = 0 then (if a = 0 then NaN else Infinity) else Num (of_nat a / of_nat b))"

definition times100 :: "jsnum \<Rightarrow> jsnum" where
  "times100 x = (case x of Num q \<Rightarrow> Num (q * 100) | Infinity \<Rightarrow> Infinity | NaN \<Rightarrow> NaN)"

definition toFixed2 :: "jsnum \<Rightarrow> jsnum" where
  \<comment> \<open>\<^verbatim>\<open>Number.parseFloat(x.toFixed(2))\<close> for \<open>x \<ge> 0\<close>: the nearest multiple of 1/100,
      the larger one on a tie\<close>
  "toFixed2 x =
     (case x of Num q \<Rightarrow> Num (of_int \<lfloor>q * 100 + 1 / 2\<rfloor> / 100)
      | Infinity \<Rightarrow> Infinity | NaN \<Rightarrow> NaN)"

definition percentage :: "nat \<Rightarrow> nat \<Rightarrow> jsnum" where
  \<comment> \<open>\<^verbatim>\<open>d > 0 ? (a / d) * 100 : 0\<close>\<close>
  "percentage a d = (if 0 < d then times100 (js_div a d) else Num 0)"

subsection \<open>Dates\<close>

text \<open>
  Time values and their calendar reading, after ECMA-262 (Time Values and Time Range, Day
  Number and Time within Day, Year Number, Week Day, \<^verbatim>\<open>LocalTime\<close>, \<^verbatim>\<open>UTC\<close>,
  \<^verbatim>\<open>TimeClip\<close> and the \<^verbatim>\<open>Date\<close> constructor). A time value is a number of milliseconds
  since 1 January 1970 UTC.
\<close>

definition msPerDay :: int where
  "msPerDay = 86400000"

definition Day :: "int \<Rightarrow> int" where
  \<comment> \<open>\<^verbatim>\<open>floor(t / msPerDay)\<close>\<close>
  "Day t = t div msPerDay"

definition DayFromYear :: "int \<Rightarrow> int" where
  \<comment> \<open>the day number of 1 January of year \<open>y\<close>\<close>
  "DayFromYear y =
     365 * (y - 1970) + (y - 1969) div 4 - (y - 1901) div 100 + (y - 1601) div 400"

definition TimeFromYear :: "int \<Rightarrow> int" where
  "TimeFromYear y = msPerDay * DayFromYear y"

function year_from :: "int \<Rightarrow> int \<Rightarrow> int" where
  \<comment> \<open>the last year, from \<open>y\<close> on, whose first day is not after day \<open>d\<close>\<close>
  "year_from d y = (if DayFromYear (y + 1) \<le> d then year_from d (y + 1) else y)"
  by pat_completeness auto
termination
proof (relation "measure (\<lambda>(d, y). nat (d + 1 - DayFromYear (y + 1)))")
  show "wf (measure (\<lambda>(d, y). nat (d + 1 - DayFromYear (y + 1))))" by simp
next
  fix d y :: int
  assume le: "DayFromYear (y + 1) \<le> d"
  have up: "a div n \<le> (a + 1) div n" if "0 < n" for a n :: int
    using that by (intro zdiv_mono1) simp_all
  have down: "(a + 1) div n \<le> a div n + 1" if "0 < n" for a n :: int
  proof -
    have "(a + 1) div n \<le> (a + n) div n"
      using that by (intro zdiv_mono1) simp_all
    also have "\<dots> = a div n + 1"
      using that by simp
    finally show ?thesis .
  qed
  define z where "z = y + 1"
  define a b c a' b' c' where "a = (z - 1969) div 4" and "b = (z - 1901) div 100"
    and "c = (z - 1601) div 400" and "a' = (z - 1969 + 1) div 4"
    and "b' = (z - 1901 + 1) div 100" and "c' = (z - 1601 + 1) div 400"
  have eq: "z + 1 - 1969 = z - 1969 + 1" "z + 1 - 1901 = z - 1901 + 1" "z + 1 - 1601 = z - 1601 + 1"
    by simp_all
  have "a \<le> a'" "b' \<le> b + 1" "c \<le> c'"
    unfolding a_def b_def c_def a'_def b'_def c'_def by (simp_all add: up down)
  moreover have "DayFromYear z = 365 * (z - 1970) + a - b + c"
    by (simp add: DayFromYear_def a_def b_def c_def)
  moreover have "DayFromYear (z + 1) = 365 * (z - 1970) + 365 + a' - b' + c'"
    unfolding DayFromYear_def eq a'_def b'_def c'_def by simp
  ultimately have "DayFromYear z < DayFromYear (z + 1)" by linarith
  with le show "((d, y + 1), (d, y)) \<in> measure (\<lambda>(d, y). nat (d + 1 - DayFromYear (y + 1)))"
    by (simp add: z_def)
qed

declare year_from.simps [simp del]

definition YearFromTime :: "int \<Rightarrow> int" where
  \<comment> \<open>the largest \<open>y\<close> with \<open>TimeFromYear y \<le> t\<close> (lemmas \<open>YearFromTime_spec\<close> and
      \<open>YearFromTime_unique\<close>), searched upwards from a year that is not after it\<close>
  "YearFromTime t =
     year_from (Day t) (1970 + (if 0 \<le> Day t then Day t div 367 else Day t div 364))"

definition DayWithinYear :: "int \<Rightarrow> int" where
  \<comment> \<open>the day of the year, 0 on 1 January\<close>
  "DayWithinYear t = Day t - DayFromYear (YearFromTime t)"

definition WeekDay :: "int \<Rightarrow> int" where
  \<comment> \<open>0 = Sunday, ..., 6 = Saturday\<close>
  "WeekDay t = (Day t + 4) mod 7"

text \<open>
  A time zone is the function \<^verbatim>\<open>LocalTZA(t, isUTC)\<close> of the host: the offset of local time
  in milliseconds at the UTC time value \<open>t\<close> (\<open>isUTC\<close>) or at the local time value \<open>t\<close>.
\<close>

type_synonym time_zone = "int \<Rightarrow> bool \<Rightarrow> int"

definition LocalTime :: "time_zone \<Rightarrow> int \<Rightarrow> int" where
  "LocalTime LocalTZA t = t + LocalTZA t True"

definition UTC :: "time_zone \<Rightarrow> int \<Rightarrow> int" where
  "UTC LocalTZA t = t - LocalTZA t False"

definition TimeClip :: "int \<Rightarrow> int option" where
  \<comment> \<open>\<open>None\<close> is \<^verbatim>\<open>NaN\<close>\<close>
  "TimeClip t = (if 8640000000000000 < \<bar>t\<bar> then None else Some t)"

definition MakeFullYear :: "int \<Rightarrow> int" where
  \<comment> \<open>the \<^verbatim>\<open>Date\<close> constructor reads a year from 0 to 99 as a year of the 20th century\<close>
  "MakeFullYear year = (if 0 \<le> year \<and> year \<le> 99 then 1900 + year else year)"

definition new_Date_Jan1 :: "time_zone \<Rightarrow> int \<Rightarrow> int option" where
  \<comment> \<open>the time value of \<^verbatim>\<open>new Date(year, 0, 1)\<close>: local midnight of 1 January\<close>
  "new_Date_Jan1 LocalTZA year = TimeClip (UTC LocalTZA (TimeFromYear (MakeFullYear year)))"

text \<open>
  A \<^verbatim>\<open>Date\<close> object is the record of what the analysers observe of it. The predicate
  \<open>date_in_zone\<close> ties the observations that \<^verbatim>\<open>getISOWeek\<close> reads to the time value.
\<close>

record jsdate =
  getTime :: "int option"  \<comment> \<open>milliseconds since the epoch; \<open>None\<close> is \<^verbatim>\<open>NaN\<close> (Invalid Date)\<close>
  getFullYear :: int
  getMonth :: nat
  isoDay :: string  \<comment> \<open>\<^verbatim>\<open>toISOString().split("T")[0]\<close>\<close>
  jan1Time :: "int option"  \<comment> \<open>\<^verbatim>\<open>new Date(getFullYear(), 0, 1).getTime()\<close>\<close>
  jan1Day :: nat  \<comment> \<open>\<^verbatim>\<open>new Date(getFullYear(), 0, 1).getDay()\<close>, 0 = Sunday\<close>

definition date_in_zone :: "time_zone \<Rightarrow> jsdate \<Rightarrow> bool" where
  \<comment> \<open>\<open>d\<close> is a \<^verbatim>\<open>Date\<close> of a host with the local time zone adjustment \<open>LocalTZA\<close>, as far
      as its time value, year and the two readings of 1 January go\<close>
  "date_in_zone LocalTZA d =
     (case getTime d of
        None \<Rightarrow> True
      | Some t \<Rightarrow>
          \<bar>t\<bar> \<le> 8640000000000000 \<and>
          getFullYear d = YearFromTime (LocalTime LocalTZA t) \<and>
          jan1Time d = new_Date_Jan1 LocalTZA (getFullYear d) \<and>
          (case jan1Time d of
             None \<Rightarrow> True
           | Some start \<Rightarrow> int (jan1Day d) = WeekDay (LocalTime LocalTZA start)))"

datatype processing_date =
  NoDate
| DateObject jsdate
| DateString string jsdate  \<comment> \<open>a string \<open>s\<close> and the value of \<^verbatim>\<open>new Date(s)\<close>\<close>

subsection \<open>Sets and sorting\<close>

definition set_add :: "'a list \<Rightarrow> 'a \<Rightarrow> 'a list" where
  \<comment> \<open>\<^verbatim>\<open>Set.add\<close>: a set keeps its elements in the order of their first insertion\<close>
  "set_add s x = (if x \<in> set s then s else s @ [x])"

definition new_Set :: "'a list \<Rightarrow> 'a list" where
  \<comment> \<open>\<^verbatim>\<open>new Set(xs)\<close>\<close>
  "new_Set xs = foldl set_add [] xs"

fun insert_by :: "('a \<Rightarrow> 'a \<Rightarrow> int) \<Rightarrow> 'a \<Rightarrow> 'a list \<Rightarrow> 'a list" where
  "insert_by cmp x [] = [x]"
| "insert_by cmp x (y # ys) =
     (if cmp x y < 0 then x # y # ys else y # insert_by cmp x ys)"

definition js_sort :: "('a \<Rightarrow> 'a \<Rightarrow> int) \<Rightarrow> 'a list \<Rightarrow> 'a list" where
  \<comment> \<open>\<^verbatim>\<open>Array.prototype.sort(cmp)\<close> as a stable insertion sort. A comparator result of
      \<^verbatim>\<open>NaN\<close> counts as 0. For a comparator that is not a consistent order the engine's
      result is implementation-defined; the theorems below use of the sort only that it
      permutes the array.\<close>
  "js_sort cmp xs = foldl (\<lambda>acc x. insert_by cmp x acc) [] xs"

section \<open>Transactions, attempts and journeys\<close>

record transaction =
  tx_transactionId :: "string option"
  tx_merchantOrderId :: "string option"
  tx_pspName :: "string option"
  tx_country :: "string option"
  tx_status :: "string option"
  tx_merchantAmount :: "rat option"
  tx_currency :: "string option"
  tx_processing_date :: processing_date

record attempt =
  a_pspName :: string
  a_status :: string
  a_timestamp :: "jsdate option"
  a_amount :: "rat option"
  a_currency :: "string option"

record positioned_attempt = attempt +
  a_position :: nat

datatype final_status = Success | Failed

record 'a journey =
  j_merchantOrderId :: string
  j_country :: string
  j_attempts :: "'a list"
  j_finalStatus :: final_status
  j_totalAttempts :: nat
  j_pspsInvolved :: "string list"

record 'a dated_journey = "'a journey" +
  j_date :: jsdate

record 'a TransactionJourney = "'a dated_journey" +
  j_transactionId :: string
  j_approvedBy :: "string option"

definition orderId_of :: "transaction \<Rightarrow> string" where
  \<comment> \<open>\<^verbatim>\<open>tx.merchantOrderId || tx.transactionId || "unknown"\<close>\<close>
  "orderId_of tx =
     or_default (tx_merchantOrderId tx) (or_default (tx_transactionId tx) ''unknown'')"

definition inherited_names :: "string list" where
  \<comment> \<open>the property names every plain object inherits from \<^verbatim>\<open>Object.prototype\<close>; reading
      \<^verbatim>\<open>r[k]\<close> for one of them yields a function or \<^verbatim>\<open>Object.prototype\<close> itself, which is truthy\<close>
  "inherited_names =
     [''constructor'', ''__defineGetter__'', ''__defineSetter__'', ''hasOwnProperty'',
      ''__lookupGetter__'', ''__lookupSetter__'', ''isPrototypeOf'', ''propertyIsEnumerable'',
      ''toString'', ''valueOf'', ''__proto__'', ''toLocaleString'']"

definition update_entry :: "string \<Rightarrow> ('v \<Rightarrow> 'v) \<Rightarrow> (string \<times> 'v) list \<Rightarrow> (string \<times> 'v) list" where
  \<comment> \<open>an in-place change of the object that \<^verbatim>\<open>r[k]\<close> reads. When \<open>k\<close> is an inherited name
      without an own entry, \<^verbatim>\<open>r[k]\<close> is the inherited object: the change lands there and
      no own entry changes.\<close>
  "update_entry k f r = map (\<lambda>(k', v). if k' = k then (k', f v) else (k', v)) r"

definition init_entry :: "string \<Rightarrow> 'v \<Rightarrow> (string \<times> 'v) list \<Rightarrow> (string \<times> 'v) list" where
  \<comment> \<open>\<^verbatim>\<open>if (!r[k]) r[k] = v\<close>: \<^verbatim>\<open>r[k]\<close> reads an own entry or an inherited property, and both
      are truthy, so nothing is stored under an inherited name\<close>
  "init_entry k v r =
     (if map_of r k = None \<and> k \<notin> set inherited_names then r @ [(k, v)] else r)"

definition init_own_entry :: "string \<Rightarrow> 'v \<Rightarrow> (string \<times> 'v) list \<Rightarrow> (string \<times> 'v) list" where
  \<comment> \<open>\<^verbatim>\<open>if (!r[k]) r[k] = v\<close> at the places where the next statement uses \<^verbatim>\<open>r[k]\<close> as the
      object just stored (\<^verbatim>\<open>r[k].attempts.push\<close>, \<^verbatim>\<open>r[k].push\<close>,
      \<^verbatim>\<open>r[k].pspBreakdown[...]\<close>). For an inherited name the code raises a TypeError there
      and returns nothing (\<open>raises_TypeError\<close>, \<open>time_raises_TypeError\<close> below); for every
      other key this is \<open>init_entry\<close>, and the entry is stored.\<close>
  "init_own_entry k v r = (if map_of r k = None then r @ [(k, v)] else r)"

definition set_entry :: "string \<Rightarrow> 'v \<Rightarrow> (string \<times> 'v) list \<Rightarrow> (string \<times> 'v) list" where
  \<comment> \<open>\<^verbatim>\<open>r[k] = v\<close> for an object \<open>v\<close>: an own property is stored, except that assigning to
      \<^verbatim>\<open>__proto__\<close> replaces the prototype and stores nothing\<close>
  "set_entry k v r =
     (if k = ''__proto__'' then r
      else if map_of r k = None then r @ [(k, v)] else update_entry k (\<lambda>_. v) r)"

definition group_by :: "('j \<Rightarrow> string) \<Rightarrow> 'j list \<Rightarrow> (string \<times> 'j list) list" where
  \<comment> \<open>\<^verbatim>\<open>if (!groups[key]) groups[key] = []; groups[key].push(journey)\<close> for every journey
      (\<^verbatim>\<open>journeysByCountry\<close>, \<^verbatim>\<open>dailyGroups\<close>, \<^verbatim>\<open>weeklyGroups\<close>, \<^verbatim>\<open>monthlyGroups\<close>). The keys
      of the three time groups are date strings, which are not inherited names.\<close>
  "group_by key journeyArray =
     foldl (\<lambda>g j. update_entry (key j) (\<lambda>js. js @ [j]) (init_own_entry (key j) [] g)) [] journeyArray"

definition push_attempt ::
  "string \<Rightarrow> 'a \<Rightarrow> (string \<times> ('a, 'b) journey_scheme) list \<Rightarrow> (string \<times> ('a, 'b) journey_scheme) list"
where
  \<comment> \<open>\<^verbatim>\<open>transactionJourneys[orderId].attempts.push(a)\<close>\<close>
  "push_attempt k a js = update_entry k (\<lambda>j. j\<lparr>j_attempts := j_attempts j @ [a]\<rparr>) js"

definition compareTimestamps :: "('a attempt_scheme) \<Rightarrow> ('a attempt_scheme) \<Rightarrow> int" where
  \<comment> \<open>the comparator of \<^verbatim>\<open>journey.attempts.sort\<close>\<close>
  "compareTimestamps a b =
     (case a_timestamp a of
        None \<Rightarrow> 1
      | Some da \<Rightarrow>
          (case a_timestamp b of
             None \<Rightarrow> - 1
           | Some db \<Rightarrow>
               (case (getTime da, getTime db) of
                  (Some x, Some y) \<Rightarrow> x - y
                | _ \<Rightarrow> 0)))"

definition has_timestamp :: "('a attempt_scheme) \<Rightarrow> bool" where
  "has_timestamp a = (a_timestamp a \<noteq> None)"

definition pspApprovedThisJourney :: "(('a attempt_scheme), 'b) journey_scheme \<Rightarrow> string \<Rightarrow> bool" where
  \<comment> \<open>\<^verbatim>\<open>journey.attempts.some(a => a.pspName === pspName && (approved or success))\<close>\<close>
  "pspApprovedThisJourney j pspName =
     list_ex (\<lambda>a. a_pspName a = pspName \<and> isApproved (a_status a)) (j_attempts j)"

definition sort_attempts :: "('a attempt_scheme) list \<Rightarrow> ('a attempt_scheme) list" where
  \<comment> \<open>\<^verbatim>\<open>if (attempts.some(a => a.timestamp)) attempts.sort(...)\<close>\<close>
  "sort_attempts as = (if list_ex has_timestamp as then js_sort compareTimestamps as else as)"

definition hasSuccess :: "('a attempt_scheme) list \<Rightarrow> bool" where
  "hasSuccess as = list_ex (\<lambda>a. isApproved (a_status a)) as"

section \<open>improvedAnalyzeData\<close>

record PSPStats =
  ps_totalAttempts :: nat
  ps_approvedAttempts :: nat
  ps_declinedAttempts :: nat
  ps_uniqueApproved :: nat
  ps_uniqueDeclined :: nat
  ps_individualApprovalRate :: jsnum
  ps_trueApprovalRate :: jsnum
  ps_avgPosition :: jsnum

record PSPBreakdown =
  pb_approvedTransactions :: nat
  pb_declinedTransactions :: nat
  pb_totalTransactions :: nat
  pb_successRate :: jsnum

record CountryBreakdown =
  cb_totalApprovedTransactions :: nat
  cb_totalUniqueDeclinedTransactions :: nat
  cb_totalProcessedTransactions :: nat
  cb_successRate :: jsnum
  cb_pspBreakdown :: "(string \<times> PSPBreakdown) list"

record Totals =
  totalApprovedTransactions :: nat
  totalUniqueDeclinedTransactions :: nat
  totalProcessedTransactions :: nat
  weightedSuccessRate :: jsnum

record pspLevelMetrics = Totals +
  pspStats :: "(string \<times> PSPStats) list"

record transactionLevelMetrics = Totals +
  countryBreakdown :: "(string \<times> CountryBreakdown) list"

type_synonym Journey = "positioned_attempt TransactionJourney"

record ImprovedAnalysisResults =
  transactionJourneys :: "(string \<times> Journey) list"
  pspLevel :: pspLevelMetrics
  transactionLevel :: transactionLevelMetrics

definition resolve_date :: "jsdate \<Rightarrow> processing_date \<Rightarrow> jsdate" where
  \<comment> \<open>\<^verbatim>\<open>d instanceof Date ? d : new Date(d || Date.now())\<close>; \<open>now\<close> is the clock reading,
      one for the whole pass: it only decides where undated attempts are sorted\<close>
  "resolve_date now pd =
     (case pd of
        DateObject d \<Rightarrow> d
      | DateString s d \<Rightarrow> if s = [] then now else d
      | NoDate \<Rightarrow> now)"

definition improved_add :: "jsdate \<Rightarrow> (string \<times> Journey) list \<Rightarrow> transaction \<Rightarrow> (string \<times> Journey) list" where
  \<comment> \<open>first pass, one transaction\<close>
  "improved_add now js tx =
     (let orderId = orderId_of tx;
          date = resolve_date now (tx_processing_date tx);
          js' = init_own_entry orderId
                  \<lparr>j_merchantOrderId = orderId,
                   j_country = trim (or_default (tx_country tx) ''Unknown''),
                   j_attempts = [],
                   j_finalStatus = Failed,
                   j_totalAttempts = 0,
                   j_pspsInvolved = [],
                   j_date = date,
                   j_transactionId = or_default (tx_transactionId tx) orderId,
                   j_approvedBy = None\<rparr> js
      in push_attempt orderId
           \<lparr>a_pspName = trim (or_default (tx_pspName tx) ''Unknown''),
            a_status = or_default (tx_status tx) ''unknown'',
            a_timestamp = Some date,
            a_amount = tx_merchantAmount tx,
            a_currency = tx_currency tx,
            a_position = 0\<rparr> js')"

definition assign_positions :: "positioned_attempt list \<Rightarrow> positioned_attempt list" where
  "assign_positions as = map (\<lambda>(i, a). a\<lparr>a_position := i + 1\<rparr>) (enumerate 0 as)"

definition improved_finish :: "Journey \<Rightarrow> Journey" where
  \<comment> \<open>second pass, one journey\<close>
  "improved_finish j =
     (let as = assign_positions (sort_attempts (j_attempts j));
          j1 = j\<lparr>j_attempts := as,
                 j_totalAttempts := length as,
                 j_pspsInvolved := new_Set (map a_pspName as)\<rparr>
      in case find (\<lambda>a. isApproved (a_status a)) as of
           Some a \<Rightarrow> j1\<lparr>j_finalStatus := Success, j_approvedBy := Some (a_pspName a)\<rparr>
         | None \<Rightarrow> j1\<lparr>j_finalStatus := Failed\<rparr>)"

definition improved_journeys :: "jsdate \<Rightarrow> transaction list \<Rightarrow> (string \<times> Journey) list" where
  "improved_journeys now txs =
     map (\<lambda>(k, j). (k, improved_finish j)) (foldl (improved_add now) [] txs)"

definition zero_stats :: PSPStats where
  "zero_stats =
     \<lparr>ps_totalAttempts = 0, ps_approvedAttempts = 0, ps_declinedAttempts = 0,
      ps_uniqueApproved = 0, ps_uniqueDeclined = 0,
      ps_individualApprovalRate = Num 0, ps_trueApprovalRate = Num 0, ps_avgPosition = Num 0\<rparr>"

definition init_psp :: "(string \<times> PSPStats) list \<Rightarrow> ('a attempt_scheme) \<Rightarrow> (string \<times> PSPStats) list" where
  "init_psp st a = init_entry (a_pspName a) zero_stats st"

definition attempt_step :: "('a attempt_scheme) \<Rightarrow> PSPStats \<Rightarrow> PSPStats" where
  \<comment> \<open>\<^verbatim>\<open>psp.totalAttempts++\<close>, then \<^verbatim>\<open>approvedAttempts++\<close>, \<^verbatim>\<open>declinedAttempts++\<close> or neither\<close>
  "attempt_step a p =
     (let p1 = p\<lparr>ps_totalAttempts := ps_totalAttempts p + 1\<rparr>
      in if isApproved (a_status a)
         then p1\<lparr>ps_approvedAttempts := ps_approvedAttempts p1 + 1\<rparr>
         else if isDeclined (a_status a)
         then p1\<lparr>ps_declinedAttempts := ps_declinedAttempts p1 + 1\<rparr>
         else p1)"

definition count_attempt :: "(string \<times> PSPStats) list \<Rightarrow> ('a attempt_scheme) \<Rightarrow> (string \<times> PSPStats) list" where
  "count_attempt st a = update_entry (a_pspName a) (attempt_step a) st"

definition unique_step ::
  "(('a attempt_scheme), 'b) journey_scheme \<Rightarrow> string \<Rightarrow> PSPStats \<Rightarrow> PSPStats"
where
  \<comment> \<open>\<^verbatim>\<open>if (pspApprovedThisJourney) psp.uniqueApproved++ else psp.uniqueDeclined++\<close>\<close>
  "unique_step j pspName p =
     (if pspApprovedThisJourney j pspName
      then p\<lparr>ps_uniqueApproved := ps_uniqueApproved p + 1\<rparr>
      else p\<lparr>ps_uniqueDeclined := ps_uniqueDeclined p + 1\<rparr>)"

definition count_unique ::
  "(('a attempt_scheme), 'b) journey_scheme \<Rightarrow> (string \<times> PSPStats) list \<Rightarrow> string \<Rightarrow> (string \<times> PSPStats) list"
where
  "count_unique j st pspName = update_entry pspName (unique_step j pspName) st"

definition unique_pass ::
  "(string \<times> PSPStats) list \<Rightarrow> (('a attempt_scheme), 'b) journey_scheme \<Rightarrow> (string \<times> PSPStats) list"
where
  \<comment> \<open>one journey of the unique-transaction loop: \<open>pspsInJourney\<close> is a \<^verbatim>\<open>Set\<close>\<close>
  "unique_pass st j = foldl (count_unique j) st (new_Set (map a_pspName (j_attempts j)))"

definition finish_stats :: "Journey list \<Rightarrow> string \<times> PSPStats \<Rightarrow> string \<times> PSPStats" where
  \<comment> \<open>position average and rates of one PSP\<close>
  "finish_stats journeyArray e =
     (case e of (pspName, stats) \<Rightarrow>
        (let positions =
               concat (map (\<lambda>j. map a_position (filter (\<lambda>a. a_pspName a = pspName) (j_attempts j)))
                 journeyArray);
             uniqueTotal = ps_uniqueApproved stats + ps_uniqueDeclined stats
         in (pspName,
             stats\<lparr>ps_avgPosition :=
                     (if 0 < length positions then js_div (sum_list positions) (length positions)
                      else Num 0),
                   ps_individualApprovalRate :=
                     percentage (ps_approvedAttempts stats) (ps_totalAttempts stats),
                   ps_trueApprovalRate := percentage (ps_uniqueApproved stats) uniqueTotal\<rparr>)))"

definition improved_pspStats :: "Journey list \<Rightarrow> (string \<times> PSPStats) list" where
  "improved_pspStats journeyArray =
     (let st0 = foldl (\<lambda>st j. foldl init_psp st (j_attempts j)) [] journeyArray;
          st1 = foldl (\<lambda>st j. foldl count_attempt st (j_attempts j)) st0 journeyArray;
          st2 = foldl unique_pass st1 journeyArray
      in map (finish_stats journeyArray) st2)"

definition count_psp_journeys ::
  "string \<Rightarrow> nat \<times> nat \<Rightarrow> (('a attempt_scheme), 'b) journey_scheme \<Rightarrow> nat \<times> nat"
where
  \<comment> \<open>the body of \<^verbatim>\<open>pspJourneys.forEach\<close>: the pair is \<open>(approved, declined)\<close>\<close>
  "count_psp_journeys pspName c j =
     (case c of (approved, declined) \<Rightarrow>
        if pspApprovedThisJourney j pspName then (approved + 1, declined)
        else (approved, declined + 1))"

definition country_psp_entry :: "Journey list \<Rightarrow> string \<Rightarrow> PSPBreakdown" where
  "country_psp_entry journeys pspName =
     (let pspJourneys = filter (\<lambda>j. pspName \<in> set (j_pspsInvolved j)) journeys;
          c = foldl (count_psp_journeys pspName) (0, 0) pspJourneys;
          total = fst c + snd c
      in \<lparr>pb_approvedTransactions = fst c,
          pb_declinedTransactions = snd c,
          pb_totalTransactions = total,
          pb_successRate = percentage (fst c) total\<rparr>)"

definition country_entry :: "string \<times> Journey list \<Rightarrow> string \<times> CountryBreakdown" where
  "country_entry e =
     (case e of (country, journeys) \<Rightarrow>
        (let totalApproved = length (filter (\<lambda>j. j_finalStatus j = Success) journeys);
             totalDeclined = length (filter (\<lambda>j. j_finalStatus j = Failed) journeys);
             totalProcessed = totalApproved + totalDeclined;
             countryPSPs = foldl (\<lambda>s j. foldl set_add s (j_pspsInvolved j)) [] journeys
         in (country,
             \<lparr>cb_totalApprovedTransactions = totalApproved,
              cb_totalUniqueDeclinedTransactions = totalDeclined,
              cb_totalProcessedTransactions = totalProcessed,
              cb_successRate = percentage totalApproved totalProcessed,
              cb_pspBreakdown =
                foldl (\<lambda>pb pspName. set_entry pspName (country_psp_entry journeys pspName) pb)
                  [] countryPSPs\<rparr>)))"

definition improvedAnalyzeData :: "jsdate \<Rightarrow> transaction list \<Rightarrow> ImprovedAnalysisResults" where
  "improvedAnalyzeData now transactions =
     (let journeys = improved_journeys now transactions;
          journeyArray = map snd journeys;
          stats = improved_pspStats journeyArray;
          totalApproved = sum_list (map (\<lambda>e. ps_uniqueApproved (snd e)) stats);
          totalDeclined = sum_list (map (\<lambda>e. ps_uniqueDeclined (snd e)) stats);
          totalProcessed = totalApproved + totalDeclined;
          countries = map country_entry (group_by j_country journeyArray);
          txApproved = sum_list (map (\<lambda>e. cb_totalApprovedTransactions (snd e)) countries);
          txDeclined = sum_list (map (\<lambda>e. cb_totalUniqueDeclinedTransactions (snd e)) countries);
          txProcessed = txApproved + txDeclined
      in \<lparr>transactionJourneys = journeys,
          pspLevel =
            \<lparr>totalApprovedTransactions = totalApproved,
             totalUniqueDeclinedTransactions = totalDeclined,
             totalProcessedTransactions = totalProcessed,
             weightedSuccessRate = percentage totalApproved totalProcessed,
             pspStats = stats\<rparr>,
          transactionLevel =
            \<lparr>totalApprovedTransactions = txApproved,
             totalUniqueDeclinedTransactions = txDeclined,
             totalProcessedTransactions = txProcessed,
             weightedSuccessRate = percentage txApproved txProcessed,
             countryBreakdown = countries\<rparr>\<rparr>)"

section \<open>recalculateWithPSPExclusions\<close>

definition recalc_step :: "string list \<Rightarrow> nat \<times> nat \<Rightarrow> Journey \<Rightarrow> nat \<times> nat" where
  \<comment> \<open>the body of \<^verbatim>\<open>filteredJourneys.forEach\<close>: the pair is \<open>(totalApproved, totalDeclined)\<close>\<close>
  "recalc_step excludedPSPs c journey =
     (case c of (totalApproved, totalDeclined) \<Rightarrow>
        if list_ex (\<lambda>a. a_pspName a \<notin> set excludedPSPs \<and> isApproved (a_status a))
             (j_attempts journey)
        then (totalApproved + 1, totalDeclined)
        else if list_ex (\<lambda>a. a_pspName a \<notin> set excludedPSPs) (j_attempts journey)
        then (totalApproved, totalDeclined + 1)
        else (totalApproved, totalDeclined))"

definition recalculateWithPSPExclusions :: "ImprovedAnalysisResults \<Rightarrow> string list \<Rightarrow> Totals" where
  "recalculateWithPSPExclusions results excludedPSPs =
     (if length excludedPSPs = 0
      then \<lparr>totalApprovedTransactions = totalApprovedTransactions (transactionLevel results),
            totalUniqueDeclinedTransactions =
              totalUniqueDeclinedTransactions (transactionLevel results),
            totalProcessedTransactions = totalProcessedTransactions (transactionLevel results),
            weightedSuccessRate = weightedSuccessRate (transactionLevel results)\<rparr>
      else
        (let filteredJourneys =
               filter (\<lambda>j. list_ex (\<lambda>psp. psp \<notin> set excludedPSPs) (j_pspsInvolved j))
                 (map snd (transactionJourneys results));
             c = foldl (recalc_step excludedPSPs) (0, 0) filteredJourneys;
             totalProcessed = fst c + snd c
         in \<lparr>totalApprovedTransactions = fst c,
             totalUniqueDeclinedTransactions = snd c,
             totalProcessedTransactions = totalProcessed,
             weightedSuccessRate = percentage (fst c) totalProcessed\<rparr>))"

section \<open>analyzeData\<close>

record AnalysisStats =
  st_total :: nat
  st_approved :: nat
  st_declined :: nat
  st_filtered :: nat
  st_other :: nat
  st_approvalRatio :: jsnum
  st_declineRatio :: jsnum

record CountryStats = AnalysisStats +
  st_pspBreakdown :: "(string \<times> AnalysisStats) list"

record CrossPSPFlow =
  f_merchantOrderId :: string
  f_approvedBy :: string
  f_declinedBy :: "string list"
  f_country :: string
  f_amount :: "rat option"
  f_currency :: "string option"

definition analyze_add ::
  "(string \<times> attempt journey) list \<Rightarrow> transaction \<Rightarrow> (string \<times> attempt journey) list"
where
  \<comment> \<open>first pass, one transaction\<close>
  "analyze_add js tx =
     (let orderId = orderId_of tx;
          js' = init_own_entry orderId
                  \<lparr>j_merchantOrderId = orderId,
                   j_country = trim (or_default (tx_country tx) ''Unknown''),
                   j_attempts = [],
                   j_finalStatus = Failed,
                   j_totalAttempts = 0,
                   j_pspsInvolved = []\<rparr> js
      in push_attempt orderId
           \<lparr>a_pspName = trim (or_default (tx_pspName tx) ''Unknown''),
            a_status = or_default (tx_status tx) ''unknown'',
            a_timestamp = (case tx_processing_date tx of DateObject d \<Rightarrow> Some d | _ \<Rightarrow> None),
            a_amount = tx_merchantAmount tx,
            a_currency = tx_currency tx\<rparr> js')"

definition analyze_finish :: "attempt journey \<Rightarrow> attempt journey" where
  \<comment> \<open>second pass, one journey\<close>
  "analyze_finish j =
     (let as = sort_attempts (j_attempts j)
      in j\<lparr>j_attempts := as,
            j_totalAttempts := length as,
            j_pspsInvolved := new_Set (map a_pspName as),
            j_finalStatus := (if hasSuccess as then Success else Failed)\<rparr>)"

definition analyze_journeys :: "transaction list \<Rightarrow> (string \<times> attempt journey) list" where
  "analyze_journeys txs = map (\<lambda>(k, j). (k, analyze_finish j)) (foldl analyze_add [] txs)"

definition zero_analysis :: AnalysisStats where
  "zero_analysis =
     \<lparr>st_total = 0, st_approved = 0, st_declined = 0, st_filtered = 0, st_other = 0,
      st_approvalRatio = Num 0, st_declineRatio = Num 0\<rparr>"

definition zero_country :: CountryStats where
  "zero_country =
     \<lparr>st_total = 0, st_approved = 0, st_declined = 0, st_filtered = 0, st_other = 0,
      st_approvalRatio = Num 0, st_declineRatio = Num 0, st_pspBreakdown = []\<rparr>"

definition inc_total :: "'a AnalysisStats_scheme \<Rightarrow> 'a AnalysisStats_scheme" where
  "inc_total s = s\<lparr>st_total := st_total s + 1\<rparr>"

definition inc_outcome :: "bool \<Rightarrow> 'a AnalysisStats_scheme \<Rightarrow> 'a AnalysisStats_scheme" where
  \<comment> \<open>\<^verbatim>\<open>if (ok) s.approved++ else s.declined++\<close>\<close>
  "inc_outcome ok s =
     (if ok then s\<lparr>st_approved := st_approved s + 1\<rparr> else s\<lparr>st_declined := st_declined s + 1\<rparr>)"

definition in_breakdown ::
  "((string \<times> AnalysisStats) list \<Rightarrow> (string \<times> AnalysisStats) list) \<Rightarrow> CountryStats \<Rightarrow> CountryStats"
where
  "in_breakdown f cs = cs\<lparr>st_pspBreakdown := f (st_pspBreakdown cs)\<rparr>"

definition analyze_psp ::
  "attempt journey \<Rightarrow> (string \<times> AnalysisStats) list \<times> (string \<times> CountryStats) list \<Rightarrow> string
     \<Rightarrow> (string \<times> AnalysisStats) list \<times> (string \<times> CountryStats) list"
where
  \<comment> \<open>the body of \<^verbatim>\<open>pspsInJourney.forEach\<close>\<close>
  "analyze_psp journey acc pspName =
     (case acc of (pspAnalysis, countryAnalysis) \<Rightarrow>
        (let country = j_country journey;
             ok = pspApprovedThisJourney journey pspName;
             pa = update_entry pspName (inc_outcome ok)
                    (update_entry pspName inc_total (init_entry pspName zero_analysis pspAnalysis));
             ca = update_entry country
                    (in_breakdown
                       (\<lambda>b. update_entry pspName (inc_outcome ok)
                              (update_entry pspName inc_total (init_entry pspName zero_analysis b))))
                    countryAnalysis
         in (pa, ca)))"

definition analyze_journey ::
  "(string \<times> AnalysisStats) list \<times> (string \<times> CountryStats) list \<Rightarrow> attempt journey
     \<Rightarrow> (string \<times> AnalysisStats) list \<times> (string \<times> CountryStats) list"
where
  \<comment> \<open>the body of the first \<^verbatim>\<open>journeyArray.forEach\<close>\<close>
  "analyze_journey acc journey =
     (case acc of (pspAnalysis, countryAnalysis) \<Rightarrow>
        (let country = j_country journey;
             ca = update_entry country (inc_outcome (j_finalStatus journey = Success))
                    (update_entry country inc_total
                       (init_own_entry country zero_country countryAnalysis))
         in foldl (analyze_psp journey) (pspAnalysis, ca)
              (new_Set (map a_pspName (j_attempts journey)))))"

definition set_ratios :: "'a AnalysisStats_scheme \<Rightarrow> 'a AnalysisStats_scheme" where
  \<comment> \<open>approved / (approved + declined) * 100, to two decimals; untouched when the sum is 0\<close>
  "set_ratios s =
     (let totalProcessed = st_approved s + st_declined s
      in if 0 < totalProcessed
         then s\<lparr>st_approvalRatio := toFixed2 (times100 (js_div (st_approved s) totalProcessed)),
                st_declineRatio := toFixed2 (times100 (js_div (st_declined s) totalProcessed))\<rparr>
         else s)"

definition country_ratios :: "CountryStats \<Rightarrow> CountryStats" where
  "country_ratios cs = in_breakdown (map (\<lambda>(k, v). (k, set_ratios v))) (set_ratios cs)"

definition first_approved :: "('a attempt_scheme) list \<Rightarrow> ('a attempt_scheme) option" where
  \<comment> \<open>\<^verbatim>\<open>attempts.find(a => approved or success)\<close>\<close>
  "first_approved as = find (\<lambda>a. isApproved (a_status a)) as"

definition declinedPSPs_step :: "string \<Rightarrow> string list \<Rightarrow> ('a attempt_scheme) \<Rightarrow> string list" where
  "declinedPSPs_step approvedBy declinedPSPs a =
     (if a_pspName a \<noteq> approvedBy
      then (if isDeclined (a_status a)
            then (if a_pspName a \<notin> set declinedPSPs
                  then declinedPSPs @ [a_pspName a] else declinedPSPs)
            else declinedPSPs)
      else declinedPSPs)"

definition journey_flows :: "attempt journey \<Rightarrow> CrossPSPFlow list" where
  \<comment> \<open>the cross-PSP part of the second \<^verbatim>\<open>journeyArray.forEach\<close>: what one journey pushes\<close>
  "journey_flows journey =
     (if 1 < length (j_pspsInvolved journey) \<and> j_finalStatus journey = Success
      then (case first_approved (j_attempts journey) of
              Some approvedAttempt \<Rightarrow>
                (let declinedPSPs =
                       foldl (declinedPSPs_step (a_pspName approvedAttempt)) [] (j_attempts journey)
                 in if 0 < length declinedPSPs
                    then [\<lparr>f_merchantOrderId = j_merchantOrderId journey,
                           f_approvedBy = a_pspName approvedAttempt,
                           f_declinedBy = declinedPSPs,
                           f_country = j_country journey,
                           f_amount = a_amount approvedAttempt,
                           f_currency = a_currency approvedAttempt\<rparr>]
                    else [])
            | None \<Rightarrow> [])
      else [])"

section \<open>analyzeTimeData\<close>

record TimeMetrics =
  tm_total :: nat
  tm_approved :: nat
  tm_declined :: nat
  tm_approvalRate :: jsnum

record PSPDayStats =
  pd_total :: nat
  pd_approved :: nat
  pd_declined :: nat
  pd_approvalRatio :: jsnum

record Period = TimeMetrics +
  tm_key :: string  \<comment> \<open>the field \<^verbatim>\<open>date\<close>, \<^verbatim>\<open>week\<close> or \<^verbatim>\<open>month\<close>\<close>

record Day = Period +
  tm_pspBreakdown :: "(string \<times> PSPDayStats) list"

record TimeAnalysis =
  daily :: "Day list"
  weekly :: "Period list"
  monthly :: "Period list"

type_synonym TimeJourney = "attempt dated_journey"

definition invalid_date :: jsdate where
  \<comment> \<open>an Invalid Date: its time value is \<^verbatim>\<open>NaN\<close>; the other fields are never read\<close>
  "invalid_date =
     \<lparr>getTime = None, getFullYear = 0, getMonth = 0, isoDay = [], jan1Time = None, jan1Day = 0\<rparr>"

definition has_valid_date :: "transaction \<Rightarrow> bool" where
  \<comment> \<open>the filter of \<^verbatim>\<open>validTransactions\<close>\<close>
  "has_valid_date tx =
     (case tx_processing_date tx of
        NoDate \<Rightarrow> False
      | DateObject d \<Rightarrow> getTime d \<noteq> None
      | DateString s d \<Rightarrow> s \<noteq> [] \<and> getTime d \<noteq> None)"

definition time_add :: "(string \<times> TimeJourney) list \<Rightarrow> transaction \<Rightarrow> (string \<times> TimeJourney) list" where
  \<comment> \<open>first pass, one transaction\<close>
  "time_add js tx =
     (let orderId = orderId_of tx;
          date = (case tx_processing_date tx of
                    DateObject d \<Rightarrow> d
                  | DateString s d \<Rightarrow> d
                  | NoDate \<Rightarrow> invalid_date);
          js' = init_own_entry orderId
                  \<lparr>j_merchantOrderId = orderId,
                   j_country = trim (or_default (tx_country tx) ''Unknown''),
                   j_attempts = [],
                   j_finalStatus = Failed,
                   j_totalAttempts = 0,
                   j_pspsInvolved = [],
                   j_date = date\<rparr> js
      in push_attempt orderId
           \<lparr>a_pspName = trim (or_default (tx_pspName tx) ''Unknown''),
            a_status = or_default (tx_status tx) ''unknown'',
            a_timestamp = Some date,
            a_amount = tx_merchantAmount tx,
            a_currency = tx_currency tx\<rparr> js')"

definition time_finish :: "TimeJourney \<Rightarrow> TimeJourney" where
  \<comment> \<open>second pass, one journey\<close>
  "time_finish j =
     (let as = js_sort compareTimestamps (j_attempts j)
      in j\<lparr>j_attempts := as,
            j_totalAttempts := length as,
            j_pspsInvolved := new_Set (map a_pspName as),
            j_finalStatus := (if hasSuccess as then Success else Failed)\<rparr>)"

definition time_journeyArray :: "transaction list \<Rightarrow> TimeJourney list" where
  "time_journeyArray txs =
     map (\<lambda>(k, j). time_finish j) (foldl time_add [] (filter has_valid_date txs))"

function digits :: "nat \<Rightarrow> string" where
  "digits n =
     (if n < 10 then [char_of (48 + n)] else digits (n div 10) @ [char_of (48 + n mod 10)])"
  by pat_completeness auto
termination
  by (relation "measure (\<lambda>n. n)") auto

declare digits.simps [simp del]

definition string_of_int :: "int \<Rightarrow> string" where
  \<comment> \<open>\<^verbatim>\<open>String(n)\<close> for an integer\<close>
  "string_of_int i = (if i < 0 then CHR ''-'' # digits (nat (- i)) else digits (nat i))"

definition padStart2 :: "string \<Rightarrow> string" where
  \<comment> \<open>\<^verbatim>\<open>s.padStart(2, "0")\<close>\<close>
  "padStart2 s = replicate (2 - length s) CHR ''0'' @ s"

definition getISOWeek :: "jsdate \<Rightarrow> string" where
  \<comment> \<open>for an Invalid Date every number is \<^verbatim>\<open>NaN\<close>; when only \<^verbatim>\<open>new Date(year, 0, 1)\<close> is
      invalid, the week is\<close>
  "getISOWeek date =
     (case getTime date of
        None \<Rightarrow> ''NaN-WNaN''
      | Some t \<Rightarrow>
          (let year = getFullYear date
           in case jan1Time date of
                None \<Rightarrow> string_of_int year @ ''-WNaN''
              | Some start \<Rightarrow>
                  (let days = \<lfloor>(of_int (t - start) :: rat) / (24 * 60 * 60 * 1000)\<rfloor>;
                       week = \<lceil>(of_int (days + int (jan1Day date) + 1) :: rat) / 7\<rceil>
                   in string_of_int year @ ''-W'' @ padStart2 (string_of_int week))))"

definition monthKey :: "jsdate \<Rightarrow> string" where
  "monthKey date =
     string_of_int (getFullYear date) @ ''-'' @ padStart2 (string_of_int (int (getMonth date) + 1))"

definition weeklyGroups :: "transaction list \<Rightarrow> (string \<times> TimeJourney list) list" where
  "weeklyGroups txs = group_by (\<lambda>j. getISOWeek (j_date j)) (time_journeyArray txs)"

definition calculateUniqueMetrics :: "(('a attempt_scheme), 'b) journey_scheme list \<Rightarrow> TimeMetrics" where
  "calculateUniqueMetrics journeys =
     (let approved = length (filter (\<lambda>j. j_finalStatus j = Success) journeys);
          declined = length (filter (\<lambda>j. j_finalStatus j = Failed) journeys);
          total = approved + declined
      in \<lparr>tm_total = total, tm_approved = approved, tm_declined = declined,
          tm_approvalRate = toFixed2 (percentage approved total)\<rparr>)"

definition day_psp_entry :: "TimeJourney list \<Rightarrow> string \<Rightarrow> PSPDayStats" where
  "day_psp_entry journeys pspName =
     (let pspJourneys = filter (\<lambda>j. pspName \<in> set (j_pspsInvolved j)) journeys;
          c = foldl (count_psp_journeys pspName) (0, 0) pspJourneys;
          total = fst c + snd c
      in \<lparr>pd_total = total, pd_approved = fst c, pd_declined = snd c,
          pd_approvalRatio = toFixed2 (percentage (fst c) total)\<rparr>)"

definition processTimeGroupWithPSPs :: "string \<times> TimeJourney list \<Rightarrow> Day" where
  "processTimeGroupWithPSPs e =
     (case e of (date, journeys) \<Rightarrow>
        (let baseMetrics = calculateUniqueMetrics journeys;
             allPSPs = foldl (\<lambda>s j. foldl set_add s (j_pspsInvolved j)) [] journeys
         in \<lparr>tm_total = tm_total baseMetrics,
             tm_approved = tm_approved baseMetrics,
             tm_declined = tm_declined baseMetrics,
             tm_approvalRate = tm_approvalRate baseMetrics,
             tm_key = date,
             tm_pspBreakdown =
               foldl (\<lambda>pb pspName. set_entry pspName (day_psp_entry journeys pspName) pb)
                 [] allPSPs\<rparr>))"

definition period_entry :: "string \<times> TimeJourney list \<Rightarrow> Period" where
  "period_entry e =
     (case e of (k, journeys) \<Rightarrow>
        (let m = calculateUniqueMetrics journeys
         in \<lparr>tm_total = tm_total m, tm_approved = tm_approved m, tm_declined = tm_declined m,
             tm_approvalRate = tm_approvalRate m, tm_key = k\<rparr>))"

definition byKey :: "(string \<Rightarrow> string \<Rightarrow> int) \<Rightarrow> 'a Period_scheme \<Rightarrow> 'a Period_scheme \<Rightarrow> int" where
  \<comment> \<open>\<^verbatim>\<open>(a, b) => a.date.localeCompare(b.date)\<close>, likewise for \<^verbatim>\<open>week\<close> and \<^verbatim>\<open>month\<close>\<close>
  "byKey localeCompare a b = localeCompare (tm_key a) (tm_key b)"

definition analyzeTimeData :: "(string \<Rightarrow> string \<Rightarrow> int) \<Rightarrow> transaction list \<Rightarrow> TimeAnalysis" where
  \<comment> \<open>\<open>localeCompare\<close> is the string collation of the host\<close>
  "analyzeTimeData localeCompare transactions =
     (if length (filter has_valid_date transactions) = 0
      then \<lparr>daily = [], weekly = [], monthly = []\<rparr>
      else
        (let journeyArray = time_journeyArray transactions;
             dailyGroups = group_by (\<lambda>j. isoDay (j_date j)) journeyArray;
             monthlyGroups = group_by (\<lambda>j. monthKey (j_date j)) journeyArray
         in \<lparr>daily = js_sort (byKey localeCompare) (map processTimeGroupWithPSPs dailyGroups),
             weekly = js_sort (byKey localeCompare) (map period_entry (weeklyGroups transactions)),
             monthly = js_sort (byKey localeCompare) (map period_entry monthlyGroups)\<rparr>))"

section \<open>The result of analyzeData\<close>

text \<open>
  The fields \<open>retriedTransactions\<close>, \<open>declineReasons\<close> and \<open>transactions\<close> of the result
  are left out. The returned \<open>crossPSPFlows\<close> is a reformatting of the internal array that
  keeps neither \<open>approvedBy\<close> nor \<open>declinedBy\<close>; the internal array is
  \<open>analyze_crossPSPFlows\<close>.
\<close>

record AnalysisResults =
  pspAnalysis :: "(string \<times> AnalysisStats) list"
  countryAnalysis :: "(string \<times> CountryStats) list"
  totalTransactions :: nat
  overallApprovalRate :: jsnum
  timeAnalysis :: TimeAnalysis

definition analyze_crossPSPFlows :: "transaction list \<Rightarrow> CrossPSPFlow list" where
  \<comment> \<open>the array \<^verbatim>\<open>crossPSPFlows\<close> that the second \<^verbatim>\<open>journeyArray.forEach\<close> fills\<close>
  "analyze_crossPSPFlows txs = concat (map (\<lambda>e. journey_flows (snd e)) (analyze_journeys txs))"

definition analyzeData :: "(string \<Rightarrow> string \<Rightarrow> int) \<Rightarrow> transaction list \<Rightarrow> AnalysisResults" where
  "analyzeData localeCompare transactions =
     (let journeyArray = map snd (analyze_journeys transactions);
          acc = foldl analyze_journey ([], []) journeyArray;
          pa = map (\<lambda>(k, v). (k, set_ratios v)) (fst acc);
          ca = map (\<lambda>(k, v). (k, country_ratios v)) (snd acc);
          totalApproved = sum_list (map (\<lambda>e. st_approved (snd e)) pa);
          totalDeclined = sum_list (map (\<lambda>e. st_declined (snd e)) pa);
          totalProcessed = totalApproved + totalDeclined
      in \<lparr>pspAnalysis = pa,
          countryAnalysis = ca,
          totalTransactions = length transactions,
          overallApprovalRate =
            (if 0 < totalProcessed then toFixed2 (times100 (js_div totalApproved totalProcessed))
             else Num 0),
          timeAnalysis = analyzeTimeData localeCompare transactions\<rparr>)"

section \<open>Calls that raise\<close>

text \<open>
  The three analysers index plain objects by order id, by country and by PSP name. For a
  key that is an inherited name the test \<^verbatim>\<open>if (!r[k])\<close> finds the inherited value, stores
  nothing, and the statement after it works on the inherited value.

  \<^item> For an order id, \<^verbatim>\<open>transactionJourneys[orderId].attempts.push(...)\<close> raises a
    TypeError (\<^verbatim>\<open>attempts\<close> is undefined).
  \<^item> For the country of a journey, \<^verbatim>\<open>journeysByCountry[country].push(journey)\<close> of
    \<^verbatim>\<open>improvedAnalyzeData\<close> and \<^verbatim>\<open>countryAnalysis[country].pspBreakdown[pspName]\<close> of
    \<^verbatim>\<open>analyzeData\<close> raise a TypeError.
  \<^item> For a PSP name nothing is raised: the counters are written to the inherited value,
    and the PSP gets no entry in \<^verbatim>\<open>pspStats\<close>, \<^verbatim>\<open>pspAnalysis\<close> or a \<^verbatim>\<open>pspBreakdown\<close> filled
    by \<^verbatim>\<open>analyzeData\<close>.

  The functions \<open>improvedAnalyzeData\<close>, \<open>analyzeData\<close> and \<open>analyzeTimeData\<close> above are
  the values returned when the call returns; the calls themselves are the functions below.
\<close>

datatype error = TypeError

definition raises_TypeError :: "transaction list \<Rightarrow> bool" where
  \<comment> \<open>\<^verbatim>\<open>improvedAnalyzeData\<close> and \<^verbatim>\<open>analyzeData\<close> raise: some order id is an inherited name
      (first pass), or else the country of some journey is\<close>
  "raises_TypeError txs =
     (list_ex (\<lambda>tx. orderId_of tx \<in> set inherited_names) txs \<or>
      list_ex (\<lambda>(k, j). j_country j \<in> set inherited_names) (analyze_journeys txs))"

definition time_raises_TypeError :: "transaction list \<Rightarrow> bool" where
  \<comment> \<open>\<^verbatim>\<open>analyzeTimeData\<close> raises: the order id of some transaction with a valid date is an
      inherited name\<close>
  "time_raises_TypeError txs =
     list_ex (\<lambda>tx. orderId_of tx \<in> set inherited_names) (filter has_valid_date txs)"

definition call_improvedAnalyzeData :: "jsdate \<Rightarrow> transaction list \<Rightarrow> error + ImprovedAnalysisResults" where
  "call_improvedAnalyzeData now txs =
     (if raises_TypeError txs then Inl TypeError else Inr (improvedAnalyzeData now txs))"

definition call_analyzeData :: "(string \<Rightarrow> string \<Rightarrow> int) \<Rightarrow> transaction list \<Rightarrow> error + AnalysisResults" where
  "call_analyzeData localeCompare txs =
     (if raises_TypeError txs then Inl TypeError else Inr (analyzeData localeCompare txs))"

definition call_analyzeTimeData :: "(string \<Rightarrow> string \<Rightarrow> int) \<Rightarrow> transaction list \<Rightarrow> error + TimeAnalysis" where
  "call_analyzeTimeData localeCompare txs =
     (if time_raises_TypeError txs then Inl TypeError else Inr (analyzeTimeData localeCompare txs))"

section \<open>Notions used in the statements and proofs\<close>

definition ratio_ok :: "jsnum \<Rightarrow> nat \<Rightarrow> bool" where
  \<comment> \<open>\<open>x\<close> is a number of the interval [0, 100], and it is 0 when the denominator \<open>d\<close> is 0\<close>
  "ratio_ok x d =
     ((case x of Num q \<Rightarrow> 0 \<le> q \<and> q \<le> 100 | Infinity \<Rightarrow> False | NaN \<Rightarrow> False) \<and>
      (d = 0 \<longrightarrow> x = Num 0))"

definition claimed_declinedBy :: "string \<Rightarrow> attempt journey \<Rightarrow> string list" where
  \<comment> \<open>After the wording of the specification, for comparison with \<open>journey_flows\<close>: every
      distinct PSP other than \<open>approvedBy\<close> that has at least one non-approving attempt\<close>
  "claimed_declinedBy approvedBy journey =
     new_Set (map a_pspName
       (filter (\<lambda>a. a_pspName a \<noteq> approvedBy \<and> \<not> isApproved (a_status a)) (j_attempts journey)))"

definition claimed_week_key :: "int \<Rightarrow> int \<Rightarrow> int \<Rightarrow> string" where
  \<comment> \<open>After the wording of the specification, for comparison with \<open>getISOWeek\<close>: the key
      \<^verbatim>\<open>YYYY-Www\<close> for a year, a day of the year and the weekday of 1 January, with
      \<open>ww = \<lceil>(dayOfYear + Jan1Weekday + 1) / 7\<rceil>\<close> padded to two digits\<close>
  "claimed_week_key year dayOfYear jan1Weekday =
     string_of_int year @ ''-W'' @
       padStart2 (string_of_int \<lceil>(of_int (dayOfYear + jan1Weekday + 1) :: rat) / 7\<rceil>)"

definition journey_psps :: "(('a attempt_scheme), 'b) journey_scheme list \<Rightarrow> ((('a attempt_scheme), 'b) journey_scheme \<times> string) list" where
  \<comment> \<open>the pairs (journey, PSP) that the unique-transaction loop visits, in its order\<close>
  "journey_psps js = concat (map (\<lambda>j. map (Pair j) (new_Set (map a_pspName (j_attempts j)))) js)"

definition psp_counts :: "Journey list \<Rightarrow> string \<Rightarrow> PSPStats" where
  \<comment> \<open>the counters of PSP \<open>P\<close> after the attempt loop and the unique-transaction loop\<close>
  "psp_counts js P =
     foldl (\<lambda>p x. if snd x = P then unique_step (fst x) (snd x) p else p)
       (foldl (\<lambda>p a. if a_pspName a = P then attempt_step a p else p) zero_stats
          (concat (map j_attempts js)))
       (journey_psps js)"

definition zero_ratios :: "'a AnalysisStats_scheme \<Rightarrow> bool" where
  \<comment> \<open>both ratios still have their initial value\<close>
  "zero_ratios s = (st_approvalRatio s = Num 0 \<and> st_declineRatio s = Num 0)"

definition zero_ratios_country :: "CountryStats \<Rightarrow> bool" where
  \<comment> \<open>likewise for a country and every entry of its PSP breakdown\<close>
  "zero_ratios_country cs = (zero_ratios cs \<and> list_all (\<lambda>e. zero_ratios (snd e)) (st_pspBreakdown cs))"

section \<open>Sample inputs\<close>

definition epoch :: jsdate where
  \<comment> \<open>1 January 1970, a Thursday\<close>
  "epoch =
     \<lparr>getTime = Some 0, getFullYear = 1970, getMonth = 0, isoDay = ''1970-01-01'',
      jan1Time = Some 0, jan1Day = 4\<rparr>"

definition sample_tx :: "string \<Rightarrow> string \<Rightarrow> string \<Rightarrow> transaction" where
  \<comment> \<open>an undated transaction of order \<open>oid\<close>, routed to \<open>psp\<close>, with status \<open>st\<close>\<close>
  "sample_tx oid psp st =
     \<lparr>tx_transactionId = None, tx_merchantOrderId = Some oid, tx_pspName = Some psp,
      tx_country = Some ''US'', tx_status = Some st, tx_merchantAmount = None,
      tx_currency = None, tx_processing_date = NoDate\<rparr>"

definition sample_txs :: "transaction list" where
  "sample_txs =
     [sample_tx ''o1'' ''A'' ''declined'', sample_tx ''o1'' ''B'' ''Approved'',
      sample_tx ''o2'' ''A'' ''in_process'']"

definition spec_example :: "transaction list" where
  \<comment> \<open>the two journeys of the specification's example: order 1 declined by A and approved
      by B, order 2 approved by A\<close>
  "spec_example =
     [sample_tx ''o1'' ''A'' ''declined'', sample_tx ''o1'' ''B'' ''approved'',
      sample_tx ''o2'' ''A'' ''approved'']"

definition inherited_psp_name :: "transaction list" where
  \<comment> \<open>one approved transaction whose PSP is called \<open>toString\<close>\<close>
  "inherited_psp_name = [sample_tx ''o1'' ''toString'' ''approved'']"

definition pending_then_approved :: "transaction list" where
  "pending_then_approved = [sample_tx ''o1'' ''A'' ''pending'', sample_tx ''o1'' ''B'' ''approved'']"

definition approved_with_error_text :: "transaction list" where
  "approved_with_error_text =
     [sample_tx ''o1'' ''A'' ''approved'', sample_tx ''o1'' ''B'' ''success after error'']"

definition declined_then_approved :: "transaction list" where
  "declined_then_approved = [sample_tx ''o1'' ''A'' ''declined'', sample_tx ''o1'' ''B'' ''approved'']"

definition jan3_2024 :: jsdate where
  \<comment> \<open>2024-01-03T00:00:00Z in a host whose local time is UTC; 1 January 2024 is a Monday\<close>
  "jan3_2024 =
     \<lparr>getTime = Some 1704240000000, getFullYear = 2024, getMonth = 0, isoDay = ''2024-01-03'',
      jan1Time = Some 1704067200000, jan1Day = 1\<rparr>"

definition mar15_2024 :: jsdate where
  \<comment> \<open>2024-03-15T12:00:00Z in the same host\<close>
  "mar15_2024 =
     \<lparr>getTime = Some 1710504000000, getFullYear = 2024, getMonth = 2, isoDay = ''2024-03-15'',
      jan1Time = Some 1704067200000, jan1Day = 1\<rparr>"

definition utc :: time_zone where
  \<comment> \<open>a host whose local time is UTC\<close>
  "utc t isUTC = 0"

definition new_york_2024 :: time_zone where
  \<comment> \<open>New York around 2024: UTC-5, and UTC-4 from 10 March 2024, 07:00 UTC (03:00
      local) to 3 November 2024, 06:00 UTC (02:00 local)\<close>
  "new_york_2024 t isUTC =
     (if isUTC
      then (if 1710054000000 \<le> t \<and> t < 1730613600000 then - 14400000 else - 18000000)
      else (if 1710039600000 \<le> t \<and> t < 1730599200000 then - 14400000 else - 18000000))"

definition jan6_2024 :: jsdate where
  \<comment> \<open>Saturday 2024-01-06T00:00:00Z in a host whose local time is UTC\<close>
  "jan6_2024 =
     \<lparr>getTime = Some 1704499200000, getFullYear = 2024, getMonth = 0, isoDay = ''2024-01-06'',
      jan1Time = Some 1704067200000, jan1Day = 1\<rparr>"

definition jul7_2024_new_york :: jsdate where
  \<comment> \<open>2024-07-07T04:30:00Z in a host in New York: 7 July, 00:30 local time; 1 January
      2024, 00:00 local time, is 05:00 UTC\<close>
  "jul7_2024_new_york =
     \<lparr>getTime = Some 1720326600000, getFullYear = 2024, getMonth = 6, isoDay = ''2024-07-07'',
      jan1Time = Some 1704085200000, jan1Day = 1\<rparr>"

definition dated_tx :: "jsdate \<Rightarrow> transaction list" where
  \<comment> \<open>one approved transaction with the processing date \<open>d\<close>\<close>
  "dated_tx d = [(sample_tx ''o1'' ''A'' ''approved'')\<lparr>tx_processing_date := DateObject d\<rparr>]"

definition dated_txs :: "transaction list" where
  "dated_txs =
     [(sample_tx ''o1'' ''A'' ''declined'')\<lparr>tx_processing_date := DateObject jan3_2024\<rparr>,
      (sample_tx ''o2'' ''B'' ''approved'')\<lparr>tx_processing_date := DateObject mar15_2024\<rparr>,
      sample_tx ''o3'' ''B'' ''approved'']"

section \<open>Properties\<close>

subsection \<open>Strings, sets and sorting\<close>

lemma str_includes_iff: "str_includes s n \<longleftrightarrow> sublist n s"
proof (induction s)
  case Nil
  then show ?case by auto
next
  case (Cons c cs)
  then show ?case by (auto simp: sublist_Cons_right)
qed

lemma foldl_set_add_set: "set (foldl set_add acc xs) = set acc \<union> set xs"
  by (induction xs arbitrary: acc) (auto simp: set_add_def)

lemma foldl_set_add_distinct: "distinct acc \<Longrightarrow> distinct (foldl set_add acc xs)"
  by (induction xs arbitrary: acc) (auto simp: set_add_def)

lemma set_new_Set: "set (new_Set xs) = set xs"
  by (simp add: new_Set_def foldl_set_add_set)

lemma distinct_new_Set: "distinct (new_Set xs)"
  by (simp add: new_Set_def foldl_set_add_distinct)

lemma set_insert_by: "set (insert_by cmp x ys) = insert x (set ys)"
  by (induction ys) auto

lemma length_insert_by: "length (insert_by cmp x ys) = Suc (length ys)"
  by (induction ys) auto

lemma foldl_insert_by_set:
  "set (foldl (\<lambda>acc x. insert_by cmp x acc) acc xs) = set acc \<union> set xs"
  by (induction xs arbitrary: acc) (auto simp: set_insert_by)

lemma foldl_insert_by_length:
  "length (foldl (\<lambda>acc x. insert_by cmp x acc) acc xs) = length acc + length xs"
  by (induction xs arbitrary: acc) (auto simp: length_insert_by)

lemma set_js_sort: "set (js_sort cmp xs) = set xs"
  by (simp add: js_sort_def foldl_insert_by_set)

lemma length_js_sort: "length (js_sort cmp xs) = length xs"
  by (simp add: js_sort_def foldl_insert_by_length)

lemma set_sort_attempts: "set (sort_attempts as) = set as"
  by (simp add: sort_attempts_def set_js_sort)

lemma length_sort_attempts: "length (sort_attempts as) = length as"
  by (simp add: sort_attempts_def length_js_sort)

lemma find_SomeD: "find P xs = Some x \<Longrightarrow> x \<in> set xs \<and> P x"
  by (induction xs) (auto split: if_splits)

lemma find_Some_ex: "(\<exists>x. find P xs = Some x) \<longleftrightarrow> (\<exists>x\<in>set xs. P x)"
  by (induction xs) auto

lemma improved_finish_attempts:
  "j_attempts (improved_finish j) = assign_positions (sort_attempts (j_attempts j))"
  by (simp add: improved_finish_def Let_def split: option.split)

lemma improved_finish_status:
  "j_finalStatus (improved_finish j) =
     (if \<exists>a\<in>set (j_attempts (improved_finish j)). isApproved (a_status a) then Success else Failed)"
proof (cases "find (\<lambda>a. isApproved (a_status a)) (assign_positions (sort_attempts (j_attempts j)))")
  case None
  then have "\<not> (\<exists>a\<in>set (assign_positions (sort_attempts (j_attempts j))). isApproved (a_status a))"
    by (simp add: find_None_iff)
  with None show ?thesis
    by (simp add: improved_finish_attempts) (simp add: improved_finish_def Let_def)
next
  case (Some a)
  then have "\<exists>a\<in>set (assign_positions (sort_attempts (j_attempts j))). isApproved (a_status a)"
    using find_SomeD by fastforce
  with Some show ?thesis
    by (simp add: improved_finish_attempts) (simp add: improved_finish_def Let_def)
qed

lemma analyze_finish_status:
  "j_finalStatus (analyze_finish j) =
     (if \<exists>a\<in>set (j_attempts (analyze_finish j)). isApproved (a_status a) then Success else Failed)"
  by (auto simp: analyze_finish_def Let_def hasSuccess_def list_ex_iff)

lemma isApproved_iff:
  "isApproved st \<longleftrightarrow>
     sublist ''approved'' (toLowerCase st) \<or> sublist ''success'' (toLowerCase st)"
  by (simp add: isApproved_def Let_def str_includes_iff)


subsection \<open>Final status of a journey\<close>

lemma transactionJourneys_improved:
  "transactionJourneys (improvedAnalyzeData now txs) = improved_journeys now txs"
  by (simp add: improvedAnalyzeData_def Let_def)

lemma improved_journeys_status:
  "(k, j) \<in> set (improved_journeys now txs) \<Longrightarrow>
     j_finalStatus j =
       (if \<exists>a\<in>set (j_attempts j). isApproved (a_status a) then Success else Failed)"
  using improved_finish_status by (auto simp: improved_journeys_def)

lemma analyze_journeys_status:
  "(k, j) \<in> set (analyze_journeys txs) \<Longrightarrow>
     j_finalStatus j =
       (if \<exists>a\<in>set (j_attempts j). isApproved (a_status a) then Success else Failed)"
  using analyze_finish_status by (auto simp: analyze_journeys_def)

text \<open>
  C4. In every journey that \<^verbatim>\<open>improvedAnalyzeData\<close> returns, and in every journey that
  \<^verbatim>\<open>analyzeData\<close> builds, \<open>finalStatus\<close> is \<open>success\<close> exactly when some attempt of the
  journey has a status whose lower-cased text contains \<open>approved\<close> or \<open>success\<close> as a
  substring, and \<open>failed\<close> otherwise.
\<close>

theorem C4_finalStatus_iff_some_attempt_approving:
  "(\<forall>(k, j)\<in>set (transactionJourneys (improvedAnalyzeData now txs)).
      j_finalStatus j =
        (if \<exists>a\<in>set (j_attempts j).
              sublist ''approved'' (toLowerCase (a_status a)) \<or>
              sublist ''success'' (toLowerCase (a_status a))
         then Success else Failed)) \<and>
   (\<forall>(k, j)\<in>set (analyze_journeys txs).
      j_finalStatus j =
        (if \<exists>a\<in>set (j_attempts j).
              sublist ''approved'' (toLowerCase (a_status a)) \<or>
              sublist ''success'' (toLowerCase (a_status a))
         then Success else Failed))"
proof -
  have 1: "\<forall>(k, j)\<in>set (transactionJourneys (improvedAnalyzeData now txs)).
      j_finalStatus j =
        (if \<exists>a\<in>set (j_attempts j). isApproved (a_status a) then Success else Failed)"
    using improved_journeys_status [of _ _ now txs]
    unfolding transactionJourneys_improved by blast
  have 2: "\<forall>(k, j)\<in>set (analyze_journeys txs).
      j_finalStatus j =
        (if \<exists>a\<in>set (j_attempts j). isApproved (a_status a) then Success else Failed)"
    using analyze_journeys_status [of _ _ txs] by blast
  from 1 2 show ?thesis unfolding isApproved_iff by blast
qed

theorem C4_witness:
  "length (transactionJourneys (improvedAnalyzeData epoch sample_txs)) = 2 \<and>
   length (analyze_journeys sample_txs) = 2 \<and>
   list_all (\<lambda>(k, j). j_finalStatus j =
        (if \<exists>a\<in>set (j_attempts j).
              sublist ''approved'' (toLowerCase (a_status a)) \<or>
              sublist ''success'' (toLowerCase (a_status a))
         then Success else Failed))
     (transactionJourneys (improvedAnalyzeData epoch sample_txs)) \<and>
   list_all (\<lambda>(k, j). j_finalStatus j =
        (if \<exists>a\<in>set (j_attempts j).
              sublist ''approved'' (toLowerCase (a_status a)) \<or>
              sublist ''success'' (toLowerCase (a_status a))
         then Success else Failed))
     (analyze_journeys sample_txs) \<and>
   map (\<lambda>(k, j). j_finalStatus j) (transactionJourneys (improvedAnalyzeData epoch sample_txs))
     = [Success, Failed] \<and>
   map (\<lambda>(k, j). j_finalStatus j) (analyze_journeys sample_txs) = [Success, Failed]"
proof -
  have a: "length (transactionJourneys (improvedAnalyzeData epoch sample_txs)) = 2"
    by code_simp
  have b: "length (analyze_journeys sample_txs) = 2"
    by code_simp
  have c: "map (\<lambda>(k, j). j_finalStatus j) (transactionJourneys (improvedAnalyzeData epoch sample_txs))
     = [Success, Failed]"
    by code_simp
  have d: "map (\<lambda>(k, j). j_finalStatus j) (analyze_journeys sample_txs) = [Success, Failed]"
    by code_simp
  show ?thesis
    using C4_finalStatus_iff_some_attempt_approving [of epoch sample_txs] a b c d
    unfolding list_all_iff by blast
qed

subsection \<open>Recalculation with excluded PSPs\<close>

text \<open>
  C2. With an empty exclusion list, \<^verbatim>\<open>recalculateWithPSPExclusions\<close> returns the four
  totals of \<open>transactionLevelMetrics\<close> of the result it is given, unchanged.
\<close>

theorem C2_empty_exclusion_reproduces_baseline:
  "totalApprovedTransactions (recalculateWithPSPExclusions r []) =
     totalApprovedTransactions (transactionLevel r) \<and>
   totalUniqueDeclinedTransactions (recalculateWithPSPExclusions r []) =
     totalUniqueDeclinedTransactions (transactionLevel r) \<and>
   totalProcessedTransactions (recalculateWithPSPExclusions r []) =
     totalProcessedTransactions (transactionLevel r) \<and>
   weightedSuccessRate (recalculateWithPSPExclusions r []) =
     weightedSuccessRate (transactionLevel r)"
  by (simp add: recalculateWithPSPExclusions_def)

subsection \<open>Objects as association lists\<close>

lemma map_fst_update_entry: "map fst (update_entry k f r) = map fst r"
  by (induction r) (auto simp: update_entry_def)

lemma map_of_update_entry:
  "map_of (update_entry k f r) k' = (if k' = k then map_option f (map_of r k) else map_of r k')"
  by (induction r) (auto simp: update_entry_def)

lemma set_update_entry:
  "set (update_entry k f r) = (\<lambda>(k', v). if k' = k then (k', f v) else (k', v)) ` set r"
  by (simp add: update_entry_def)

lemma map_fst_init_own_entry:
  "set (map fst (init_own_entry k v r)) = insert k (set (map fst r))"
  by (auto simp: init_own_entry_def map_of_eq_None_iff)

lemma distinct_init_own_entry:
  "distinct (map fst r) \<Longrightarrow> distinct (map fst (init_own_entry k v r))"
  by (auto simp: init_own_entry_def map_of_eq_None_iff)

lemma set_init_own_entry: "set (init_own_entry k v r) \<subseteq> insert (k, v) (set r)"
  by (auto simp: init_own_entry_def)

lemma init_entry_own: "k \<notin> set inherited_names \<Longrightarrow> init_entry k v r = init_own_entry k v r"
  by (simp add: init_entry_def init_own_entry_def)

lemma init_entry_inherited: "k \<in> set inherited_names \<Longrightarrow> init_entry k v r = r"
  by (simp add: init_entry_def)

lemma distinct_init_entry:
  "distinct (map fst r) \<Longrightarrow> distinct (map fst (init_entry k v r))"
  by (auto simp: init_entry_def map_of_eq_None_iff)

lemma set_init_entry: "set (init_entry k v r) \<subseteq> insert (k, v) (set r)"
  by (auto simp: init_entry_def)

lemma keys_init_entry:
  "fst ` set (init_entry k v r) = fst ` set r \<union> ({k} - set inherited_names)"
  by (auto simp: init_entry_def map_of_eq_None_iff)

lemma foldl_nested:
  "foldl (\<lambda>s x. foldl f s (g x)) s xs = foldl f s (concat (map g xs))"
  by (induction xs arbitrary: s) auto

lemma foldl_nested_dep:
  "foldl (\<lambda>s x. foldl (f x) s (g x)) s xs =
     foldl (\<lambda>s (x, y). f x s y) s (concat (map (\<lambda>x. map (Pair x) (g x)) xs))"
proof (induction xs arbitrary: s)
  case Nil
  then show ?case by simp
next
  case (Cons x xs)
  have "foldl (\<lambda>s (x, y). f x s y) s (map (Pair x) ys) = foldl (f x) s ys" for ys s
    by (induction ys arbitrary: s) auto
  with Cons show ?case by simp
qed

lemma map_of_foldl_update:
  "map_of (foldl (\<lambda>st x. update_entry (key x) (g x) st) st xs) P =
     map_option (\<lambda>p. foldl (\<lambda>p x. if key x = P then g x p else p) p xs) (map_of st P)"
proof (induction xs arbitrary: st)
  case Nil
  then show ?case by (simp add: option.map_ident)
next
  case (Cons x xs)
  show ?case
    by (simp add: Cons map_of_update_entry option.map_comp comp_def)
qed

lemma map_fst_foldl_update:
  "map fst (foldl (\<lambda>st x. update_entry (key x) (g x) st) st xs) = map fst st"
  by (induction xs arbitrary: st) (auto simp: map_fst_update_entry)

subsection \<open>The PSP statistics of improvedAnalyzeData\<close>

lemma map_of_init_own_entry:
  "map_of (init_own_entry k v r) k' =
     (case map_of r k' of Some x \<Rightarrow> Some x | None \<Rightarrow> if k' = k then Some v else None)"
  by (auto simp: init_own_entry_def map_add_def split: option.split)

lemma map_of_init_entry:
  "map_of (init_entry k v r) k' =
     (case map_of r k' of
        Some x \<Rightarrow> Some x
      | None \<Rightarrow> if k' = k \<and> k \<notin> set inherited_names then Some v else None)"
  by (auto simp: init_entry_def map_add_def split: option.split)

lemma map_of_foldl_init_psp:
  "map_of (foldl init_psp st as) P =
     (case map_of st P of
        Some v \<Rightarrow> Some v
      | None \<Rightarrow>
          if P \<in> a_pspName ` set as \<and> P \<notin> set inherited_names then Some zero_stats else None)"
proof (induction as arbitrary: st)
  case Nil
  then show ?case by (simp split: option.split)
next
  case (Cons a as)
  have "map_of (init_psp st a) P =
      (case map_of st P of Some x \<Rightarrow> Some x
       | None \<Rightarrow> if P = a_pspName a \<and> P \<notin> set inherited_names then Some zero_stats else None)"
    unfolding init_psp_def map_of_init_entry by (auto split: option.split)
  then show ?case
    using Cons [of "init_psp st a"] by (auto split: option.split)
qed

lemma distinct_init_psp: "distinct (map fst st) \<Longrightarrow> distinct (map fst (init_psp st a))"
  unfolding init_psp_def by (rule distinct_init_entry)

lemma distinct_foldl_init_psp:
  "distinct (map fst st) \<Longrightarrow> distinct (map fst (foldl init_psp st as))"
  by (induction as arbitrary: st) (simp_all add: distinct_init_psp)

lemma keys_foldl_init_psp:
  "fst ` set (foldl init_psp st as) =
     fst ` set st \<union> (a_pspName ` set as - set inherited_names)"
proof (induction as arbitrary: st)
  case Nil
  then show ?case by simp
next
  case (Cons a as)
  have "fst ` set (init_psp st a) = fst ` set st \<union> ({a_pspName a} - set inherited_names)"
    unfolding init_psp_def by (rule keys_init_entry)
  then show ?case using Cons [of "init_psp st a"] by auto
qed

lemma finish_stats_key: "fst (finish_stats js e) = fst e"
  by (cases e) (simp add: finish_stats_def Let_def)

lemma map_fst_finish_stats: "map fst (map (finish_stats js) st) = map fst st"
  by (simp add: finish_stats_key)

lemma map_of_finish_stats:
  "map_of (map (finish_stats js) st) P =
     map_option (\<lambda>p. snd (finish_stats js (P, p))) (map_of st P)"
  by (induction st) (auto simp: finish_stats_def Let_def)

lemma finish_stats_counts:
  "ps_totalAttempts (snd (finish_stats js (P, p))) = ps_totalAttempts p"
  "ps_approvedAttempts (snd (finish_stats js (P, p))) = ps_approvedAttempts p"
  "ps_declinedAttempts (snd (finish_stats js (P, p))) = ps_declinedAttempts p"
  "ps_uniqueApproved (snd (finish_stats js (P, p))) = ps_uniqueApproved p"
  "ps_uniqueDeclined (snd (finish_stats js (P, p))) = ps_uniqueDeclined p"
  by (simp_all add: finish_stats_def Let_def)

lemma finish_stats_rates:
  "ps_individualApprovalRate (snd (finish_stats js (P, p))) =
     percentage (ps_approvedAttempts p) (ps_totalAttempts p)"
  "ps_trueApprovalRate (snd (finish_stats js (P, p))) =
     percentage (ps_uniqueApproved p) (ps_uniqueApproved p + ps_uniqueDeclined p)"
  by (simp_all add: finish_stats_def Let_def)

lemma count_attempt_eq:
  "count_attempt = (\<lambda>st a. update_entry (a_pspName a) (attempt_step a) st)"
  by (intro ext) (simp add: count_attempt_def)

lemma unique_pass_eq:
  "unique_pass = (\<lambda>st j. foldl (count_unique j) st (new_Set (map a_pspName (j_attempts j))))"
  by (intro ext) (simp add: unique_pass_def)

lemma count_unique_eq:
  "(\<lambda>s (x, y). count_unique x s y) =
     (\<lambda>st x. update_entry (snd x) (unique_step (fst x) (snd x)) st)"
  by (intro ext) (simp add: count_unique_def split: prod.split)

lemma foldl_count_attempt:
  "foldl (\<lambda>st j. foldl count_attempt st (j_attempts j)) st js =
     foldl (\<lambda>st a. update_entry (a_pspName a) (attempt_step a) st) st (concat (map j_attempts js))"
  by (simp add: foldl_nested count_attempt_eq)

lemma foldl_unique_pass:
  "foldl unique_pass st js =
     foldl (\<lambda>st x. update_entry (snd x) (unique_step (fst x) (snd x)) st) st (journey_psps js)"
  by (simp add: unique_pass_eq foldl_nested_dep journey_psps_def count_unique_eq)

lemma map_of_improved_pspStats:
  "map_of (improved_pspStats js) P =
     (if P \<in> a_pspName ` set (concat (map j_attempts js)) \<and> P \<notin> set inherited_names
      then Some (snd (finish_stats js (P, psp_counts js P))) else None)"
  unfolding improved_pspStats_def Let_def
  by (simp only: map_of_finish_stats foldl_unique_pass foldl_count_attempt map_of_foldl_update
      foldl_nested map_of_foldl_init_psp psp_counts_def)
    (simp split: option.split)

lemma distinct_improved_pspStats: "distinct (map fst (improved_pspStats js))"
  unfolding improved_pspStats_def Let_def
  by (simp only: map_fst_finish_stats foldl_unique_pass foldl_count_attempt map_fst_foldl_update
      foldl_nested)
    (simp add: distinct_foldl_init_psp)

lemma keys_improved_pspStats:
  "fst ` set (improved_pspStats js) =
     a_pspName ` set (concat (map j_attempts js)) - set inherited_names"
proof -
  have "map fst (improved_pspStats js) =
      map fst (foldl init_psp [] (concat (map j_attempts js)))"
    unfolding improved_pspStats_def Let_def
    by (simp only: map_fst_finish_stats foldl_unique_pass foldl_count_attempt
        map_fst_foldl_update foldl_nested)
  then have "set (map fst (improved_pspStats js)) =
      set (map fst (foldl init_psp [] (concat (map j_attempts js))))"
    by simp
  then show ?thesis
    using keys_foldl_init_psp [of "[]" "concat (map j_attempts js)"] by simp
qed

lemma unique_fold_fields:
  fixes xs :: "(((('a attempt_scheme), 'b) journey_scheme) \<times> string) list"
  defines "F \<equiv> \<lambda>P. foldl (\<lambda>p (x :: (('a attempt_scheme), 'b) journey_scheme \<times> string).
      if snd x = P then unique_step (fst x) (snd x) p else p)"
  shows "ps_uniqueApproved (F P p xs) =
      ps_uniqueApproved p + length (filter (\<lambda>x. snd x = P \<and> pspApprovedThisJourney (fst x) P) xs)"
    and "ps_uniqueDeclined (F P p xs) =
      ps_uniqueDeclined p + length (filter (\<lambda>x. snd x = P \<and> \<not> pspApprovedThisJourney (fst x) P) xs)"
    and "ps_totalAttempts (F P p xs) = ps_totalAttempts p"
    and "ps_approvedAttempts (F P p xs) = ps_approvedAttempts p"
    and "ps_declinedAttempts (F P p xs) = ps_declinedAttempts p"
  unfolding F_def
  by (induction xs arbitrary: p) (simp_all add: unique_step_def)

lemma attempt_fold_fields:
  fixes as :: "('a attempt_scheme) list"
  defines "G \<equiv> \<lambda>P. foldl (\<lambda>p (a :: 'a attempt_scheme).
      if a_pspName a = P then attempt_step a p else p)"
  shows "ps_totalAttempts (G P p as) =
      ps_totalAttempts p + length (filter (\<lambda>a. a_pspName a = P) as)"
    and "ps_approvedAttempts (G P p as) =
      ps_approvedAttempts p + length (filter (\<lambda>a. a_pspName a = P \<and> isApproved (a_status a)) as)"
    and "ps_declinedAttempts (G P p as) =
      ps_declinedAttempts p +
        length (filter (\<lambda>a. a_pspName a = P \<and> \<not> isApproved (a_status a) \<and> isDeclined (a_status a)) as)"
    and "ps_uniqueApproved (G P p as) = ps_uniqueApproved p"
    and "ps_uniqueDeclined (G P p as) = ps_uniqueDeclined p"
  unfolding G_def
  by (induction as arbitrary: p) (simp_all add: attempt_step_def Let_def)

lemma filter_Pair_distinct:
  "distinct ps \<Longrightarrow>
     length (filter (\<lambda>x. snd x = P \<and> c (fst x)) (map (Pair j) ps)) =
       (if P \<in> set ps \<and> c j then 1 else 0)"
  by (induction ps) auto

lemma filter_journey_psps:
  "length (filter (\<lambda>x. snd x = P \<and> c (fst x)) (journey_psps js)) =
     length (filter (\<lambda>j. P \<in> a_pspName ` set (j_attempts j) \<and> c j) js)"
proof (induction js)
  case Nil
  then show ?case by (simp add: journey_psps_def)
next
  case (Cons j js)
  have "length (filter (\<lambda>x. snd x = P \<and> c (fst x))
            (map (Pair j) (new_Set (map a_pspName (j_attempts j))))) =
        (if P \<in> a_pspName ` set (j_attempts j) \<and> c j then 1 else 0)"
    using filter_Pair_distinct [OF distinct_new_Set, of P c j "map a_pspName (j_attempts j)"]
    by (simp add: set_new_Set)
  with Cons show ?case by (simp add: journey_psps_def)
qed

lemma psp_counts_fields:
  "ps_uniqueApproved (psp_counts js P) =
     length (filter (\<lambda>j. P \<in> a_pspName ` set (j_attempts j) \<and> pspApprovedThisJourney j P) js)"
  "ps_uniqueDeclined (psp_counts js P) =
     length (filter (\<lambda>j. P \<in> a_pspName ` set (j_attempts j) \<and> \<not> pspApprovedThisJourney j P) js)"
  "ps_totalAttempts (psp_counts js P) =
     length (filter (\<lambda>a. a_pspName a = P) (concat (map j_attempts js)))"
  "ps_approvedAttempts (psp_counts js P) =
     length (filter (\<lambda>a. a_pspName a = P \<and> isApproved (a_status a)) (concat (map j_attempts js)))"
  "ps_declinedAttempts (psp_counts js P) =
     length (filter (\<lambda>a. a_pspName a = P \<and> \<not> isApproved (a_status a) \<and> isDeclined (a_status a))
       (concat (map j_attempts js)))"
  unfolding psp_counts_def
  by (simp_all add: unique_fold_fields attempt_fold_fields zero_stats_def
      filter_journey_psps [of P "\<lambda>j. pspApprovedThisJourney j P"]
      filter_journey_psps [of P "\<lambda>j. \<not> pspApprovedThisJourney j P"])

lemma improved_finish_psps:
  "j_pspsInvolved (improved_finish j) = new_Set (map a_pspName (j_attempts (improved_finish j)))"
  by (simp add: improved_finish_def Let_def split: option.split)

lemma improved_journeys_psps:
  "(k, j) \<in> set (improved_journeys now txs) \<Longrightarrow>
     set (j_pspsInvolved j) = a_pspName ` set (j_attempts j)"
  using improved_finish_psps by (auto simp: improved_journeys_def set_new_Set)

lemma pspStats_improved:
  "pspStats (pspLevel (improvedAnalyzeData now txs)) =
     improved_pspStats (map snd (improved_journeys now txs))"
  by (simp add: improvedAnalyzeData_def Let_def)

lemma pspApprovedThisJourney_iff:
  "pspApprovedThisJourney j P \<longleftrightarrow>
     (\<exists>a\<in>set (j_attempts j). a_pspName a = P \<and>
        (sublist ''approved'' (toLowerCase (a_status a)) \<or>
         sublist ''success'' (toLowerCase (a_status a))))"
  by (simp add: pspApprovedThisJourney_def list_ex_iff isApproved_iff)

lemma improved_pspStats_entry:
  assumes "(P, s) \<in> set (improved_pspStats js)"
  shows "s = snd (finish_stats js (P, psp_counts js P))"
proof -
  have "map_of (improved_pspStats js) P = Some s"
    using assms distinct_improved_pspStats by (simp add: map_of_eq_Some_iff)
  then show ?thesis
    by (simp add: map_of_improved_pspStats split: if_splits)
qed

text \<open>
  What the unique-transaction loop leaves in \<open>pspStats\<close>: a PSP of a journey has an entry
  exactly when its name is not an inherited one, the keys are unique, and every entry
  counts each journey that involves its PSP once, in \<open>uniqueApproved\<close> when some attempt
  by the PSP in the journey is approving and in \<open>uniqueDeclined\<close> otherwise.
\<close>

lemma pspStats_unique_counts:
  "(\<forall>(k, j)\<in>set (transactionJourneys (improvedAnalyzeData now txs)).
      \<forall>P\<in>set (j_pspsInvolved j).
        (\<exists>s. (P, s) \<in> set (pspStats (pspLevel (improvedAnalyzeData now txs)))) \<longleftrightarrow>
        P \<notin> set inherited_names) \<and>
   distinct (map fst (pspStats (pspLevel (improvedAnalyzeData now txs)))) \<and>
   (\<forall>(P, s)\<in>set (pspStats (pspLevel (improvedAnalyzeData now txs))).
      ps_uniqueApproved s =
        length (filter (\<lambda>j. P \<in> set (j_pspsInvolved j) \<and>
                  (\<exists>a\<in>set (j_attempts j). a_pspName a = P \<and>
                     (sublist ''approved'' (toLowerCase (a_status a)) \<or>
                      sublist ''success'' (toLowerCase (a_status a)))))
          (map snd (transactionJourneys (improvedAnalyzeData now txs)))) \<and>
      ps_uniqueDeclined s =
        length (filter (\<lambda>j. P \<in> set (j_pspsInvolved j) \<and>
                  \<not> (\<exists>a\<in>set (j_attempts j). a_pspName a = P \<and>
                     (sublist ''approved'' (toLowerCase (a_status a)) \<or>
                      sublist ''success'' (toLowerCase (a_status a)))))
          (map snd (transactionJourneys (improvedAnalyzeData now txs)))) \<and>
      ps_uniqueApproved s + ps_uniqueDeclined s =
        length (filter (\<lambda>j. P \<in> set (j_pspsInvolved j))
          (map snd (transactionJourneys (improvedAnalyzeData now txs)))))"
proof -
  define js where "js = map snd (improved_journeys now txs)"
  have psps: "set (j_pspsInvolved j) = a_pspName ` set (j_attempts j)" if "j \<in> set js" for j
    using that improved_journeys_psps [of _ j now txs] by (auto simp: js_def)
  have keys: "fst ` set (improved_pspStats js) =
      a_pspName ` set (concat (map j_attempts js)) - set inherited_names"
    by (rule keys_improved_pspStats)
  have 1: "\<forall>(k, j)\<in>set (improved_journeys now txs).
      \<forall>P\<in>set (j_pspsInvolved j).
        (\<exists>s. (P, s) \<in> set (improved_pspStats js)) \<longleftrightarrow> P \<notin> set inherited_names"
  proof (intro ballI, clarify)
    fix k j P assume kj: "(k, j) \<in> set (improved_journeys now txs)" and P: "P \<in> set (j_pspsInvolved j)"
    from kj have "j \<in> set js" by (force simp: js_def)
    with P psps have "P \<in> a_pspName ` set (concat (map j_attempts js))" by auto
    with keys have "P \<in> fst ` set (improved_pspStats js) \<longleftrightarrow> P \<notin> set inherited_names" by simp
    moreover have "P \<in> fst ` set (improved_pspStats js) \<longleftrightarrow> (\<exists>s. (P, s) \<in> set (improved_pspStats js))"
      by force
    ultimately show "(\<exists>s. (P, s) \<in> set (improved_pspStats js)) \<longleftrightarrow> P \<notin> set inherited_names"
      by simp
  qed
  have 3: "\<forall>(P, s)\<in>set (improved_pspStats js).
      ps_uniqueApproved s =
        length (filter (\<lambda>j. P \<in> set (j_pspsInvolved j) \<and> pspApprovedThisJourney j P) js) \<and>
      ps_uniqueDeclined s =
        length (filter (\<lambda>j. P \<in> set (j_pspsInvolved j) \<and> \<not> pspApprovedThisJourney j P) js) \<and>
      ps_uniqueApproved s + ps_uniqueDeclined s =
        length (filter (\<lambda>j. P \<in> set (j_pspsInvolved j)) js)"
  proof (intro ballI, clarify)
    fix P s assume "(P, s) \<in> set (improved_pspStats js)"
    then have s: "s = snd (finish_stats js (P, psp_counts js P))"
      by (rule improved_pspStats_entry)
    have a: "ps_uniqueApproved s =
        length (filter (\<lambda>j. P \<in> set (j_pspsInvolved j) \<and> pspApprovedThisJourney j P) js)"
      unfolding s finish_stats_counts psp_counts_fields
      by (intro arg_cong [where f = length] filter_cong refl) (simp add: psps)
    have b: "ps_uniqueDeclined s =
        length (filter (\<lambda>j. P \<in> set (j_pspsInvolved j) \<and> \<not> pspApprovedThisJourney j P) js)"
      unfolding s finish_stats_counts psp_counts_fields
      by (intro arg_cong [where f = length] filter_cong refl) (simp add: psps)
    have c: "length (filter (\<lambda>j. P \<in> set (j_pspsInvolved j) \<and> pspApprovedThisJourney j P) js) +
        length (filter (\<lambda>j. P \<in> set (j_pspsInvolved j) \<and> \<not> pspApprovedThisJourney j P) js) =
        length (filter (\<lambda>j. P \<in> set (j_pspsInvolved j)) js)"
      by (induction js) auto
    from a b c show "ps_uniqueApproved s =
        length (filter (\<lambda>j. P \<in> set (j_pspsInvolved j) \<and> pspApprovedThisJourney j P) js) \<and>
      ps_uniqueDeclined s =
        length (filter (\<lambda>j. P \<in> set (j_pspsInvolved j) \<and> \<not> pspApprovedThisJourney j P) js) \<and>
      ps_uniqueApproved s + ps_uniqueDeclined s =
        length (filter (\<lambda>j. P \<in> set (j_pspsInvolved j)) js)"
      by simp
  qed
  show ?thesis
    unfolding transactionJourneys_improved pspStats_improved js_def [symmetric]
      pspApprovedThisJourney_iff [symmetric]
    using 1 3 distinct_improved_pspStats [of js] by blast
qed

text \<open>
  C1. The claim fails for a PSP whose name is an inherited property name. For the single
  transaction of order \<open>o1\<close>, approved by a PSP named \<open>toString\<close>, the call returns, the
  journey has \<open>pspsInvolved = [toString]\<close> and is a success, and \<open>pspStats\<close> is empty: the
  journey contributes to neither \<open>uniqueApproved\<close> nor \<open>uniqueDeclined\<close> of its PSP.
\<close>

theorem C1_inherited_psp_name_not_counted:
  "call_improvedAnalyzeData epoch inherited_psp_name =
     Inr (improvedAnalyzeData epoch inherited_psp_name) \<and>
   map (\<lambda>(k, j). (k, j_pspsInvolved j, j_finalStatus j))
     (transactionJourneys (improvedAnalyzeData epoch inherited_psp_name)) =
     [(''o1'', [''toString''], Success)] \<and>
   pspStats (pspLevel (improvedAnalyzeData epoch inherited_psp_name)) = []"
proof -
  have "\<not> raises_TypeError inherited_psp_name"
    by code_simp
  then have a: "call_improvedAnalyzeData epoch inherited_psp_name =
      Inr (improvedAnalyzeData epoch inherited_psp_name)"
    by (simp add: call_improvedAnalyzeData_def)
  have b: "map (\<lambda>(k, j). (k, j_pspsInvolved j, j_finalStatus j))
      (transactionJourneys (improvedAnalyzeData epoch inherited_psp_name)) =
      [(''o1'', [''toString''], Success)]"
    by code_simp
  have c: "pspStats (pspLevel (improvedAnalyzeData epoch inherited_psp_name)) = []"
    by code_simp
  show ?thesis by (rule conjI [OF a conjI [OF b c]])
qed

lemma filter_three_way:
  "length (filter P xs) =
     length (filter (\<lambda>x. P x \<and> A x) xs) +
     length (filter (\<lambda>x. P x \<and> \<not> A x \<and> D x) xs) +
     length (filter (\<lambda>x. P x \<and> \<not> A x \<and> \<not> D x) xs)"
  by (induction xs) auto

lemma isDeclined_iff:
  "isDeclined st \<longleftrightarrow>
     sublist ''declined'' (toLowerCase st) \<or> sublist ''fail'' (toLowerCase st) \<or>
     sublist ''error'' (toLowerCase st)"
  by (simp add: isDeclined_def Let_def str_includes_iff)

text \<open>
  C9. For every PSP, \<open>approvedAttempts + declinedAttempts \<le> totalAttempts\<close>; the difference
  is the number of the PSP's attempts whose status contains none of \<open>approved\<close>,
  \<open>success\<close>, \<open>declined\<close>, \<open>fail\<close>, \<open>error\<close>. For the single attempt with status
  \<open>in_process\<close> the total is 1 and both outcome counters are 0, so the inequality is
  strict there.
\<close>

theorem C9_attempt_counters_do_not_partition:
  "(\<forall>(P, s)\<in>set (pspStats (pspLevel (improvedAnalyzeData now txs))).
      ps_approvedAttempts s + ps_declinedAttempts s \<le> ps_totalAttempts s \<and>
      ps_totalAttempts s =
        ps_approvedAttempts s + ps_declinedAttempts s +
        length (filter (\<lambda>a. a_pspName a = P \<and>
                  \<not> (sublist ''approved'' (toLowerCase (a_status a)) \<or>
                     sublist ''success'' (toLowerCase (a_status a))) \<and>
                  \<not> (sublist ''declined'' (toLowerCase (a_status a)) \<or>
                     sublist ''fail'' (toLowerCase (a_status a)) \<or>
                     sublist ''error'' (toLowerCase (a_status a))))
          (concat (map (\<lambda>(k, j). j_attempts j)
             (transactionJourneys (improvedAnalyzeData now txs)))))) \<and>
   map (\<lambda>(P, s). (P, ps_totalAttempts s, ps_approvedAttempts s, ps_declinedAttempts s))
     (pspStats (pspLevel (improvedAnalyzeData epoch [sample_tx ''o1'' ''A'' ''in_process''])))
     = [(''A'', 1, 0, 0)]"
proof -
  define js where "js = map snd (improved_journeys now txs)"
  have att: "concat (map (\<lambda>(k, j). j_attempts j) (improved_journeys now txs)) =
      concat (map j_attempts js)"
    by (simp add: js_def comp_def case_prod_unfold)
  have 1: "\<forall>(P, s)\<in>set (improved_pspStats js).
      ps_totalAttempts s =
        ps_approvedAttempts s + ps_declinedAttempts s +
        length (filter (\<lambda>a. a_pspName a = P \<and> \<not> isApproved (a_status a) \<and> \<not> isDeclined (a_status a))
          (concat (map j_attempts js)))"
  proof (intro ballI, clarify)
    fix P s assume "(P, s) \<in> set (improved_pspStats js)"
    then have s: "s = snd (finish_stats js (P, psp_counts js P))"
      by (rule improved_pspStats_entry)
    show "ps_totalAttempts s =
        ps_approvedAttempts s + ps_declinedAttempts s +
        length (filter (\<lambda>a. a_pspName a = P \<and> \<not> isApproved (a_status a) \<and> \<not> isDeclined (a_status a))
          (concat (map j_attempts js)))"
      unfolding s finish_stats_counts psp_counts_fields
      by (rule filter_three_way)
  qed
  have 2: "map (\<lambda>(P, s). (P, ps_totalAttempts s, ps_approvedAttempts s, ps_declinedAttempts s))
     (pspStats (pspLevel (improvedAnalyzeData epoch [sample_tx ''o1'' ''A'' ''in_process''])))
     = [(''A'', 1, 0, 0)]"
    by code_simp
  show ?thesis
    unfolding pspStats_improved transactionJourneys_improved att
      isApproved_iff [symmetric] isDeclined_iff [symmetric]
    using 1 2 unfolding pspStats_improved js_def by fastforce
qed

theorem C9_witness:
  "map (\<lambda>(P, s). (P, ps_totalAttempts s, ps_approvedAttempts s, ps_declinedAttempts s))
     (pspStats (pspLevel (improvedAnalyzeData epoch sample_txs)))
     = [(''A'', 2, 0, 1), (''B'', 1, 1, 0)] \<and>
   list_all (\<lambda>(P, s).
      ps_approvedAttempts s + ps_declinedAttempts s \<le> ps_totalAttempts s \<and>
      ps_totalAttempts s =
        ps_approvedAttempts s + ps_declinedAttempts s +
        length (filter (\<lambda>a. a_pspName a = P \<and>
                  \<not> (sublist ''approved'' (toLowerCase (a_status a)) \<or>
                     sublist ''success'' (toLowerCase (a_status a))) \<and>
                  \<not> (sublist ''declined'' (toLowerCase (a_status a)) \<or>
                     sublist ''fail'' (toLowerCase (a_status a)) \<or>
                     sublist ''error'' (toLowerCase (a_status a))))
          (concat (map (\<lambda>(k, j). j_attempts j)
             (transactionJourneys (improvedAnalyzeData epoch sample_txs))))))
     (pspStats (pspLevel (improvedAnalyzeData epoch sample_txs)))"
proof -
  have a: "map (\<lambda>(P, s). (P, ps_totalAttempts s, ps_approvedAttempts s, ps_declinedAttempts s))
     (pspStats (pspLevel (improvedAnalyzeData epoch sample_txs)))
     = [(''A'', 2, 0, 1), (''B'', 1, 1, 0)]"
    by code_simp
  show ?thesis
    using C9_attempt_counters_do_not_partition [of epoch sample_txs] a
    unfolding list_all_iff by blast
qed

subsection \<open>Sums over the entries of an object\<close>

lemma update_entry_absent: "k \<notin> fst ` set r \<Longrightarrow> update_entry k f r = r"
  by (induction r) (auto simp: update_entry_def)

lemma sum_length_push:
  "distinct (map fst r) \<Longrightarrow> k \<in> fst ` set r \<Longrightarrow>
     sum_list (map (\<lambda>e. length (snd e)) (update_entry k (\<lambda>xs. xs @ [x]) r)) =
       Suc (sum_list (map (\<lambda>e. length (snd e)) r))"
proof (induction r)
  case Nil
  then show ?case by simp
next
  case (Cons e r)
  show ?case
  proof (cases "fst e = k")
    case True
    with Cons.prems have "k \<notin> fst ` set r" by auto
    then have "update_entry k (\<lambda>xs. xs @ [x]) r = r" by (rule update_entry_absent)
    then have "update_entry k (\<lambda>xs. xs @ [x]) (e # r) = (k, snd e @ [x]) # r"
      using True by (cases e) (simp add: update_entry_def)
    then show ?thesis by simp
  next
    case False
    with Cons.prems have "k \<in> fst ` set r" and "distinct (map fst r)" by auto
    with Cons.IH have "sum_list (map (\<lambda>e. length (snd e)) (update_entry k (\<lambda>xs. xs @ [x]) r)) =
       Suc (sum_list (map (\<lambda>e. length (snd e)) r))" by simp
    moreover have "update_entry k (\<lambda>xs. xs @ [x]) (e # r) = e # update_entry k (\<lambda>xs. xs @ [x]) r"
      using False by (cases e) (simp add: update_entry_def)
    ultimately show ?thesis by simp
  qed
qed

lemma sum_length_init_own_entry:
  "sum_list (map (\<lambda>e. length (snd e)) (init_own_entry k [] r)) = sum_list (map (\<lambda>e. length (snd e)) r)"
  by (simp add: init_own_entry_def)

lemma group_step_invariant:
  assumes "distinct (map fst g)"
  shows "distinct (map fst (update_entry k (\<lambda>xs. xs @ [x]) (init_own_entry k [] g))) \<and>
     sum_list (map (\<lambda>e. length (snd e)) (update_entry k (\<lambda>xs. xs @ [x]) (init_own_entry k [] g))) =
       Suc (sum_list (map (\<lambda>e. length (snd e)) g))"
proof -
  have d: "distinct (map fst (init_own_entry k [] g))"
    using assms by (rule distinct_init_own_entry)
  have "k \<in> set (map fst (init_own_entry k [] g))"
    by (simp only: map_fst_init_own_entry) simp
  then have m: "k \<in> fst ` set (init_own_entry k [] g)" by simp
  show ?thesis
    using sum_length_push [OF d m, of x] d
    by (simp add: map_fst_update_entry sum_length_init_own_entry)
qed

lemma foldl_group_invariant:
  "distinct (map fst g) \<Longrightarrow>
     distinct (map fst (foldl (\<lambda>g j. update_entry (key j) (\<lambda>js. js @ [j]) (init_own_entry (key j) [] g)) g js)) \<and>
     sum_list (map (\<lambda>e. length (snd e))
       (foldl (\<lambda>g j. update_entry (key j) (\<lambda>js. js @ [j]) (init_own_entry (key j) [] g)) g js)) =
       sum_list (map (\<lambda>e. length (snd e)) g) + length js"
proof (induction js arbitrary: g)
  case Nil
  then show ?case by simp
next
  case (Cons j js)
  from group_step_invariant [OF Cons.prems, of "key j" j]
  have d: "distinct (map fst (update_entry (key j) (\<lambda>xs. xs @ [j]) (init_own_entry (key j) [] g)))"
    and s: "sum_list (map (\<lambda>e. length (snd e)) (update_entry (key j) (\<lambda>xs. xs @ [j]) (init_own_entry (key j) [] g))) =
       Suc (sum_list (map (\<lambda>e. length (snd e)) g))"
    by simp_all
  from Cons.IH [OF d] s show ?case by simp
qed

lemma group_by_total: "sum_list (map (\<lambda>e. length (snd e)) (group_by key js)) = length js"
  using foldl_group_invariant [of "[]" key js] by (simp add: group_by_def)

lemma distinct_group_by: "distinct (map fst (group_by key js))"
  using foldl_group_invariant [of "[]" key js] by (simp add: group_by_def)

lemma final_status_split:
  "length (filter (\<lambda>j. j_finalStatus j = Success) js) +
   length (filter (\<lambda>j. j_finalStatus j = Failed) js) = length js"
proof (induction js)
  case Nil
  then show ?case by simp
next
  case (Cons j js)
  then show ?case by (cases "j_finalStatus j") simp_all
qed

lemma country_entry_totals:
  "cb_totalApprovedTransactions (snd (country_entry e)) =
     length (filter (\<lambda>j. j_finalStatus j = Success) (snd e))"
  "cb_totalUniqueDeclinedTransactions (snd (country_entry e)) =
     length (filter (\<lambda>j. j_finalStatus j = Failed) (snd e))"
  by (cases e; simp add: country_entry_def Let_def)+

lemma transactionLevel_totals:
  "totalApprovedTransactions (transactionLevel (improvedAnalyzeData now txs)) +
   totalUniqueDeclinedTransactions (transactionLevel (improvedAnalyzeData now txs)) =
     length (improved_journeys now txs)"
proof -
  define gs where "gs = group_by j_country (map snd (improved_journeys now txs))"
  have "sum_list (map (\<lambda>e. cb_totalApprovedTransactions (snd e)) (map country_entry gs)) +
        sum_list (map (\<lambda>e. cb_totalUniqueDeclinedTransactions (snd e)) (map country_entry gs)) =
        sum_list (map (\<lambda>e. length (snd e)) gs)"
  proof (induction gs)
    case Nil
    then show ?case by simp
  next
    case (Cons g gs)
    have "cb_totalApprovedTransactions (snd (country_entry g)) +
        cb_totalUniqueDeclinedTransactions (snd (country_entry g)) = length (snd g)"
      by (simp only: country_entry_totals final_status_split)
    with Cons show ?case by simp
  qed
  also have "\<dots> = length (improved_journeys now txs)"
    by (simp add: gs_def group_by_total)
  finally show ?thesis
    by (simp add: improvedAnalyzeData_def Let_def gs_def)
qed

lemma transactionLevel_processed:
  "totalProcessedTransactions (transactionLevel (improvedAnalyzeData now txs)) =
     length (improved_journeys now txs)"
  using transactionLevel_totals [of now txs]
  by (simp add: improvedAnalyzeData_def Let_def)

lemma sum_list_if_filter:
  "sum_list (map (\<lambda>x. if Q x then (1::nat) else 0) xs) = length (filter Q xs)"
  by (induction xs) auto

lemma sum_filter_exchange:
  "sum_list (map (\<lambda>P. length (filter (\<lambda>j. Q j P) js)) ks) =
     sum_list (map (\<lambda>j. length (filter (\<lambda>P. Q j P) ks)) js)"
proof (induction js)
  case Nil
  then show ?case by simp
next
  case (Cons j js)
  have "sum_list (map (\<lambda>P. length (filter (\<lambda>j. Q j P) (j # js))) ks) =
      sum_list (map (\<lambda>P. (if Q j P then 1 else 0) + length (filter (\<lambda>j. Q j P) js)) ks)"
    by (intro arg_cong [where f = sum_list] map_cong refl) simp
  also have "\<dots> = sum_list (map (\<lambda>P. if Q j P then 1 else 0) ks) +
      sum_list (map (\<lambda>P. length (filter (\<lambda>j. Q j P) js)) ks)"
    by (simp add: sum_list_addf)
  finally show ?case
    using Cons by (simp add: sum_list_if_filter)
qed

lemma improved_pspStats_sum:
  "sum_list (map (\<lambda>e. h (snd e)) (improved_pspStats js)) =
     sum_list (map (\<lambda>P. h (snd (finish_stats js (P, psp_counts js P))))
       (map fst (improved_pspStats js)))"
proof -
  have "map (\<lambda>e. h (snd e)) (improved_pspStats js) =
      map (\<lambda>e. h (snd (finish_stats js (fst e, psp_counts js (fst e))))) (improved_pspStats js)"
  proof (intro map_cong refl)
    fix e assume "e \<in> set (improved_pspStats js)"
    then have "(fst e, snd e) \<in> set (improved_pspStats js)" by simp
    then have "snd e = snd (finish_stats js (fst e, psp_counts js (fst e)))"
      by (rule improved_pspStats_entry)
    then show "h (snd e) = h (snd (finish_stats js (fst e, psp_counts js (fst e))))"
      by simp
  qed
  then have "sum_list (map (\<lambda>e. h (snd e)) (improved_pspStats js)) =
      sum_list (map (\<lambda>e. h (snd (finish_stats js (fst e, psp_counts js (fst e)))))
        (improved_pspStats js))"
    by (rule arg_cong)
  then show ?thesis by (simp only: map_map o_def)
qed

lemma filter_keys_card:
  assumes "distinct ks" and "S \<inter> set ks = S - I"
  shows "length (filter (\<lambda>P. P \<in> S \<and> c P) ks) = card {P \<in> S - I. c P}"
proof -
  have "length (filter (\<lambda>P. P \<in> S \<and> c P) ks) = card ({P. P \<in> S \<and> c P} \<inter> set ks)"
    using assms(1) by (rule distinct_length_filter)
  moreover have "{P. P \<in> S \<and> c P} \<inter> set ks = {P \<in> S - I. c P}"
    using assms(2) by auto
  ultimately show ?thesis by simp
qed

lemma journey_keys_improved_pspStats:
  assumes "j \<in> set js"
  shows "a_pspName ` set (j_attempts j) \<inter> set (map fst (improved_pspStats js)) =
     a_pspName ` set (j_attempts j) - set inherited_names"
  using assms keys_improved_pspStats [of js] by auto

lemma uniqueApproved_sum:
  "sum_list (map (\<lambda>e. ps_uniqueApproved (snd e)) (improved_pspStats js)) =
     sum_list (map (\<lambda>j. card {P \<in> a_pspName ` set (j_attempts j) - set inherited_names.
        pspApprovedThisJourney j P}) js)"
proof -
  let ?ks = "map fst (improved_pspStats js)"
  have "sum_list (map (\<lambda>e. ps_uniqueApproved (snd e)) (improved_pspStats js)) =
      sum_list (map (\<lambda>P. length (filter (\<lambda>j. P \<in> a_pspName ` set (j_attempts j) \<and>
          pspApprovedThisJourney j P) js)) ?ks)"
    using improved_pspStats_sum [of ps_uniqueApproved js]
    by (simp only: finish_stats_counts psp_counts_fields)
  also have "\<dots> = sum_list (map (\<lambda>j. length (filter (\<lambda>P. P \<in> a_pspName ` set (j_attempts j) \<and>
          pspApprovedThisJourney j P) ?ks)) js)"
    by (rule sum_filter_exchange)
  also have "\<dots> = sum_list (map (\<lambda>j. card {P \<in> a_pspName ` set (j_attempts j) - set inherited_names.
          pspApprovedThisJourney j P}) js)"
  proof (intro arg_cong [where f = sum_list] map_cong refl)
    fix j assume "j \<in> set js"
    then have "a_pspName ` set (j_attempts j) \<inter> set ?ks =
        a_pspName ` set (j_attempts j) - set inherited_names"
      by (rule journey_keys_improved_pspStats)
    then show "length (filter (\<lambda>P. P \<in> a_pspName ` set (j_attempts j) \<and>
          pspApprovedThisJourney j P) ?ks) =
        card {P \<in> a_pspName ` set (j_attempts j) - set inherited_names. pspApprovedThisJourney j P}"
      by (rule filter_keys_card [OF distinct_improved_pspStats])
  qed
  finally show ?thesis .
qed

lemma uniqueDeclined_sum:
  "sum_list (map (\<lambda>e. ps_uniqueDeclined (snd e)) (improved_pspStats js)) =
     sum_list (map (\<lambda>j. card {P \<in> a_pspName ` set (j_attempts j) - set inherited_names.
        \<not> pspApprovedThisJourney j P}) js)"
proof -
  let ?ks = "map fst (improved_pspStats js)"
  have "sum_list (map (\<lambda>e. ps_uniqueDeclined (snd e)) (improved_pspStats js)) =
      sum_list (map (\<lambda>P. length (filter (\<lambda>j. P \<in> a_pspName ` set (j_attempts j) \<and>
          \<not> pspApprovedThisJourney j P) js)) ?ks)"
    using improved_pspStats_sum [of ps_uniqueDeclined js]
    by (simp only: finish_stats_counts psp_counts_fields)
  also have "\<dots> = sum_list (map (\<lambda>j. length (filter (\<lambda>P. P \<in> a_pspName ` set (j_attempts j) \<and>
          \<not> pspApprovedThisJourney j P) ?ks)) js)"
    by (rule sum_filter_exchange)
  also have "\<dots> = sum_list (map (\<lambda>j. card {P \<in> a_pspName ` set (j_attempts j) - set inherited_names.
          \<not> pspApprovedThisJourney j P}) js)"
  proof (intro arg_cong [where f = sum_list] map_cong refl)
    fix j assume "j \<in> set js"
    then have "a_pspName ` set (j_attempts j) \<inter> set ?ks =
        a_pspName ` set (j_attempts j) - set inherited_names"
      by (rule journey_keys_improved_pspStats)
    then show "length (filter (\<lambda>P. P \<in> a_pspName ` set (j_attempts j) \<and>
          \<not> pspApprovedThisJourney j P) ?ks) =
        card {P \<in> a_pspName ` set (j_attempts j) - set inherited_names. \<not> pspApprovedThisJourney j P}"
      by (rule filter_keys_card [OF distinct_improved_pspStats])
  qed
  finally show ?thesis .
qed

lemma card_split_names:
  assumes "finite S"
  shows "card {P \<in> S. c P} + card {P \<in> S. \<not> c P} = card S"
proof -
  have "{P \<in> S. c P} \<inter> {P \<in> S. \<not> c P} = {}"
    by auto
  moreover have "{P \<in> S. c P} \<union> {P \<in> S. \<not> c P} = S"
    by auto
  moreover have "finite {P \<in> S. c P}" and "finite {P \<in> S. \<not> c P}"
    using assms by simp_all
  ultimately show ?thesis
    using card_Un_disjoint [of "{P \<in> S. c P}" "{P \<in> S. \<not> c P}"]
    by simp
qed

lemma unique_total_sum:
  "sum_list (map (\<lambda>e. ps_uniqueApproved (snd e)) (improved_pspStats js)) +
   sum_list (map (\<lambda>e. ps_uniqueDeclined (snd e)) (improved_pspStats js)) =
     sum_list (map (\<lambda>j. card (a_pspName ` set (j_attempts j) - set inherited_names)) js)"
  unfolding uniqueApproved_sum uniqueDeclined_sum
proof (induction js)
  case Nil
  then show ?case by simp
next
  case (Cons j js)
  have "card {P \<in> a_pspName ` set (j_attempts j) - set inherited_names. pspApprovedThisJourney j P} +
      card {P \<in> a_pspName ` set (j_attempts j) - set inherited_names. \<not> pspApprovedThisJourney j P} =
      card (a_pspName ` set (j_attempts j) - set inherited_names)"
    by (rule card_split_names) simp
  with Cons show ?case by simp
qed

subsection \<open>Every journey has an attempt\<close>

lemma push_after_init_nonempty:
  assumes "\<forall>(k, j)\<in>set js. j_attempts j \<noteq> []"
  shows "\<forall>(k, j)\<in>set (push_attempt k0 a (init_own_entry k0 v js)). j_attempts j \<noteq> []"
proof (intro ballI, clarify)
  fix k j assume "(k, j) \<in> set (push_attempt k0 a (init_own_entry k0 v js))" and e: "j_attempts j = []"
  then obtain k' j' where in': "(k', j') \<in> set (init_own_entry k0 v js)"
    and eq: "(k, j) = (if k' = k0 then (k', j'\<lparr>j_attempts := j_attempts j' @ [a]\<rparr>) else (k', j'))"
    by (auto simp: push_attempt_def set_update_entry)
  show False
  proof (cases "k' = k0")
    case True
    with eq e show False by simp
  next
    case False
    with in' set_init_own_entry [of k0 v js] have "(k', j') \<in> set js" by auto
    with assms have "j_attempts j' \<noteq> []" by auto
    with eq False e show False by simp
  qed
qed

lemma improved_add_nonempty:
  "\<forall>(k, j)\<in>set js. j_attempts j \<noteq> [] \<Longrightarrow>
     \<forall>(k, j)\<in>set (improved_add now js tx). j_attempts j \<noteq> []"
  unfolding improved_add_def Let_def by (rule push_after_init_nonempty)

lemma foldl_improved_add_nonempty:
  "\<forall>(k, j)\<in>set js. j_attempts j \<noteq> [] \<Longrightarrow>
     \<forall>(k, j)\<in>set (foldl (improved_add now) js txs). j_attempts j \<noteq> []"
proof (induction txs arbitrary: js)
  case Nil
  then show ?case by simp
next
  case (Cons tx txs)
  from Cons.prems have "\<forall>(k, j)\<in>set (improved_add now js tx). j_attempts j \<noteq> []"
    by (rule improved_add_nonempty)
  then show ?case using Cons.IH by simp
qed

lemma length_assign_positions: "length (assign_positions as) = length as"
  by (simp add: assign_positions_def)

lemma improved_journeys_nonempty:
  assumes "(k, j) \<in> set (improved_journeys now txs)"
  shows "j_attempts j \<noteq> []"
proof -
  from assms obtain j0 where j0: "(k, j0) \<in> set (foldl (improved_add now) [] txs)"
    and j: "j = improved_finish j0"
    by (auto simp: improved_journeys_def)
  have "\<forall>(k, j)\<in>set (foldl (improved_add now) [] txs). j_attempts j \<noteq> []"
    by (rule foldl_improved_add_nonempty) simp
  with j0 have "j_attempts j0 \<noteq> []" by auto
  then have "length (j_attempts j) \<noteq> 0"
    unfolding j improved_finish_attempts length_assign_positions length_sort_attempts by simp
  then show ?thesis by simp
qed

lemma improved_journeys_psps_distinct:
  "(k, j) \<in> set (improved_journeys now txs) \<Longrightarrow> distinct (j_pspsInvolved j)"
  using improved_finish_psps by (auto simp: improved_journeys_def distinct_new_Set)

lemma sum_list_ge_length:
  "\<forall>x\<in>set xs. 1 \<le> f x \<Longrightarrow>
     length xs \<le> sum_list (map f xs) \<and>
     (sum_list (map f xs) = length xs \<longleftrightarrow> (\<forall>x\<in>set xs. f x = (1::nat)))"
proof (induction xs)
  case Nil
  then show ?case by simp
next
  case (Cons x xs)
  then have ih: "length xs \<le> sum_list (map f xs)"
    and iff: "sum_list (map f xs) = length xs \<longleftrightarrow> (\<forall>x\<in>set xs. f x = 1)"
    and x: "1 \<le> f x"
    by simp_all
  from ih x have 1: "length (x # xs) \<le> sum_list (map f (x # xs))" by simp
  have 2: "sum_list (map f (x # xs)) = length (x # xs) \<longleftrightarrow> (\<forall>y\<in>set (x # xs). f y = 1)"
  proof
    assume "sum_list (map f (x # xs)) = length (x # xs)"
    with ih x have "f x = 1" and "sum_list (map f xs) = length xs" by simp_all
    with iff show "\<forall>y\<in>set (x # xs). f y = 1" by simp
  next
    assume "\<forall>y\<in>set (x # xs). f y = 1"
    with iff show "sum_list (map f (x # xs)) = length (x # xs)" by simp
  qed
  from 1 2 show ?case by blast
qed

lemma card_own_names:
  assumes "distinct ps"
  shows "card (set ps - set inherited_names) = length (filter (\<lambda>P. P \<notin> set inherited_names) ps)"
proof -
  have "set ps - set inherited_names = set (filter (\<lambda>P. P \<notin> set inherited_names) ps)"
    by auto
  moreover have "distinct (filter (\<lambda>P. P \<notin> set inherited_names) ps)"
    using assms by simp
  ultimately show ?thesis by (simp only: distinct_card)
qed

lemma pspLevel_processed:
  "totalProcessedTransactions (pspLevel (improvedAnalyzeData now txs)) =
     sum_list (map (\<lambda>e. length (filter (\<lambda>P. P \<notin> set inherited_names) (j_pspsInvolved (snd e))))
       (improved_journeys now txs))"
proof -
  have "totalProcessedTransactions (pspLevel (improvedAnalyzeData now txs)) =
      sum_list (map (\<lambda>j. card (a_pspName ` set (j_attempts j) - set inherited_names))
        (map snd (improved_journeys now txs)))"
    using unique_total_sum [of "map snd (improved_journeys now txs)"]
    by (simp add: improvedAnalyzeData_def Let_def)
  also have "\<dots> = sum_list (map (\<lambda>e. card (a_pspName ` set (j_attempts (snd e)) - set inherited_names))
      (improved_journeys now txs))"
    by (simp add: comp_def)
  also have "\<dots> = sum_list (map (\<lambda>e. length (filter (\<lambda>P. P \<notin> set inherited_names)
      (j_pspsInvolved (snd e)))) (improved_journeys now txs))"
  proof (intro arg_cong [where f = sum_list] map_cong refl)
    fix e assume "e \<in> set (improved_journeys now txs)"
    then have m: "(fst e, snd e) \<in> set (improved_journeys now txs)" by simp
    have "card (set (j_pspsInvolved (snd e)) - set inherited_names) =
        length (filter (\<lambda>P. P \<notin> set inherited_names) (j_pspsInvolved (snd e)))"
      using improved_journeys_psps_distinct [OF m] by (rule card_own_names)
    then show "card (a_pspName ` set (j_attempts (snd e)) - set inherited_names) =
        length (filter (\<lambda>P. P \<notin> set inherited_names) (j_pspsInvolved (snd e)))"
      using improved_journeys_psps [OF m] by simp
  qed
  finally show ?thesis .
qed

lemma improved_journeys_psps_nonempty:
  assumes "(k, j) \<in> set (improved_journeys now txs)"
  shows "1 \<le> length (j_pspsInvolved j)"
proof -
  from improved_journeys_nonempty [OF assms] have "a_pspName ` set (j_attempts j) \<noteq> {}" by simp
  then have "set (j_pspsInvolved j) \<noteq> {}"
    using improved_journeys_psps [OF assms] by simp
  then show ?thesis by (cases "j_pspsInvolved j") simp_all
qed

text \<open>
  The two overall totals: \<open>pspLevelMetrics.totalProcessedTransactions\<close> is the sum over
  the journeys of the number of distinct PSPs involved whose names are not inherited ones,
  \<open>transactionLevelMetrics.totalProcessedTransactions\<close> is the number of journeys. When no
  PSP has an inherited name the first is at least the second, and they are equal exactly
  when every journey involves one PSP.
\<close>

lemma two_overall_totals:
  "totalProcessedTransactions (pspLevel (improvedAnalyzeData now txs)) =
     sum_list (map (\<lambda>(k, j). length (filter (\<lambda>P. P \<notin> set inherited_names) (j_pspsInvolved j)))
       (transactionJourneys (improvedAnalyzeData now txs))) \<and>
   (\<forall>(k, j)\<in>set (transactionJourneys (improvedAnalyzeData now txs)).
      distinct (j_pspsInvolved j) \<and>
      set (j_pspsInvolved j) = a_pspName ` set (j_attempts j)) \<and>
   totalProcessedTransactions (transactionLevel (improvedAnalyzeData now txs)) =
     length (transactionJourneys (improvedAnalyzeData now txs))"
proof -
  let ?js = "improved_journeys now txs"
  have c: "\<forall>(k, j)\<in>set ?js. distinct (j_pspsInvolved j) \<and>
      set (j_pspsInvolved j) = a_pspName ` set (j_attempts j)"
    using improved_journeys_psps_distinct [of _ _ now txs] improved_journeys_psps [of _ _ now txs]
    by blast
  have d: "(\<lambda>(k, j). length (filter (\<lambda>P. P \<notin> set inherited_names) (j_pspsInvolved j))) =
      (\<lambda>e :: string \<times> Journey. length (filter (\<lambda>P. P \<notin> set inherited_names) (j_pspsInvolved (snd e))))"
    by (simp add: case_prod_unfold)
  show ?thesis
    unfolding transactionJourneys_improved pspLevel_processed transactionLevel_processed d
    using c by simp
qed

lemma two_overall_totals_own_names:
  assumes "\<forall>(k, j)\<in>set (transactionJourneys (improvedAnalyzeData now txs)).
      \<forall>P\<in>set (j_pspsInvolved j). P \<notin> set inherited_names"
  shows "totalProcessedTransactions (pspLevel (improvedAnalyzeData now txs)) =
       sum_list (map (\<lambda>(k, j). length (j_pspsInvolved j))
         (transactionJourneys (improvedAnalyzeData now txs))) \<and>
     totalProcessedTransactions (transactionLevel (improvedAnalyzeData now txs)) \<le>
       totalProcessedTransactions (pspLevel (improvedAnalyzeData now txs)) \<and>
     (totalProcessedTransactions (pspLevel (improvedAnalyzeData now txs)) =
        totalProcessedTransactions (transactionLevel (improvedAnalyzeData now txs)) \<longleftrightarrow>
      (\<forall>(k, j)\<in>set (transactionJourneys (improvedAnalyzeData now txs)).
         length (j_pspsInvolved j) = 1))"
proof -
  let ?js = "improved_journeys now txs"
  let ?f = "\<lambda>e :: string \<times> Journey. length (j_pspsInvolved (snd e))"
  have own: "\<forall>P\<in>set (j_pspsInvolved (snd e)). P \<notin> set inherited_names" if "e \<in> set ?js" for e
    using assms that unfolding transactionJourneys_improved by (cases e) auto
  have "map (\<lambda>e. length (filter (\<lambda>P. P \<notin> set inherited_names) (j_pspsInvolved (snd e)))) ?js =
      map ?f ?js"
  proof (intro map_cong refl)
    fix e assume "e \<in> set ?js"
    from own [OF this] have "filter (\<lambda>P. P \<notin> set inherited_names) (j_pspsInvolved (snd e)) =
        j_pspsInvolved (snd e)"
      by (simp only: filter_id_conv)
    then show "length (filter (\<lambda>P. P \<notin> set inherited_names) (j_pspsInvolved (snd e))) = ?f e"
      by simp
  qed
  then have total: "totalProcessedTransactions (pspLevel (improvedAnalyzeData now txs)) =
      sum_list (map ?f ?js)"
    by (simp only: pspLevel_processed)
  have ge: "\<forall>e\<in>set ?js. 1 \<le> ?f e"
    using improved_journeys_psps_nonempty [of _ _ now txs] by auto
  from sum_list_ge_length [OF ge]
  have a: "length ?js \<le> sum_list (map ?f ?js)"
    and b: "sum_list (map ?f ?js) = length ?js \<longleftrightarrow> (\<forall>e\<in>set ?js. ?f e = 1)"
    by simp_all
  have d: "(\<lambda>(k, j). length (j_pspsInvolved j)) = ?f"
    by (simp add: case_prod_unfold)
  have e: "(\<forall>(k, j)\<in>set ?js. length (j_pspsInvolved j) = 1) \<longleftrightarrow> (\<forall>e\<in>set ?js. ?f e = 1)"
    by (simp add: case_prod_unfold)
  show ?thesis
    unfolding transactionJourneys_improved total transactionLevel_processed d e
    using a b by simp
qed

text \<open>
  C10. The claim fails for a PSP whose name is an inherited property name. For the single
  transaction of order \<open>o1\<close>, approved by a PSP named \<open>toString\<close>, the call returns with one
  journey that involves one PSP: the sum over the journeys of the number of distinct PSPs
  involved is 1, \<open>transactionLevelMetrics.totalProcessedTransactions\<close> is 1, and
  \<open>pspLevelMetrics.totalProcessedTransactions\<close> is 0, which is neither that sum nor at
  least the transaction-level total.
\<close>

theorem C10_pspLevel_total_misses_inherited_psp_name:
  "call_improvedAnalyzeData epoch inherited_psp_name =
     Inr (improvedAnalyzeData epoch inherited_psp_name) \<and>
   map (\<lambda>(k, j). length (j_pspsInvolved j))
     (transactionJourneys (improvedAnalyzeData epoch inherited_psp_name)) = [1] \<and>
   totalProcessedTransactions (transactionLevel (improvedAnalyzeData epoch inherited_psp_name)) = 1 \<and>
   totalProcessedTransactions (pspLevel (improvedAnalyzeData epoch inherited_psp_name)) = 0"
proof -
  have "\<not> raises_TypeError inherited_psp_name"
    by code_simp
  then have a: "call_improvedAnalyzeData epoch inherited_psp_name =
      Inr (improvedAnalyzeData epoch inherited_psp_name)"
    by (simp add: call_improvedAnalyzeData_def)
  have b: "map (\<lambda>(k, j). length (j_pspsInvolved j))
      (transactionJourneys (improvedAnalyzeData epoch inherited_psp_name)) = [1]"
    by code_simp
  have c: "totalProcessedTransactions (transactionLevel (improvedAnalyzeData epoch inherited_psp_name)) = 1"
    by code_simp
  have d: "totalProcessedTransactions (pspLevel (improvedAnalyzeData epoch inherited_psp_name)) = 0"
    by code_simp
  show ?thesis by (rule conjI [OF a conjI [OF b conjI [OF c d]]])
qed

subsection \<open>Unique approvals and successful journeys\<close>

lemma sum_list_mono_nat:
  "\<forall>x\<in>set xs. f x \<le> (g x :: nat) \<Longrightarrow> sum_list (map f xs) \<le> sum_list (map g xs)"
  by (induction xs) (auto intro: add_mono)

lemma successful_journey_has_approving_psp:
  assumes "(k, j) \<in> set (improved_journeys now txs)" and "j_finalStatus j = Success"
    and "\<forall>P\<in>set (j_pspsInvolved j). P \<notin> set inherited_names"
  shows "1 \<le> card {P \<in> a_pspName ` set (j_attempts j) - set inherited_names.
      pspApprovedThisJourney j P}"
proof -
  from improved_journeys_status [OF assms(1)] assms(2)
  obtain a where a: "a \<in> set (j_attempts j)" "isApproved (a_status a)"
    by (auto split: if_splits)
  from a(1) have "a_pspName a \<in> set (j_pspsInvolved j)"
    using improved_journeys_psps [OF assms(1)] by simp
  with assms(3) have "a_pspName a \<notin> set inherited_names" by simp
  with a have "a_pspName a \<in> {P \<in> a_pspName ` set (j_attempts j) - set inherited_names.
      pspApprovedThisJourney j P}"
    by (auto simp: pspApprovedThisJourney_def list_ex_iff)
  moreover have "finite {P \<in> a_pspName ` set (j_attempts j) - set inherited_names.
      pspApprovedThisJourney j P}"
    by simp
  ultimately have "0 < card {P \<in> a_pspName ` set (j_attempts j) - set inherited_names.
      pspApprovedThisJourney j P}"
    using card_gt_0_iff by blast
  then show ?thesis by simp
qed

text \<open>
  \<open>pspLevelMetrics.totalApprovedTransactions\<close> is the sum over all PSPs of
  \<open>uniqueApproved\<close>. When no PSP has an inherited name, it is at least the number of
  journeys whose \<open>finalStatus\<close> is \<open>success\<close>.
\<close>

lemma unique_approved_covers_successes:
  assumes "\<forall>(k, j)\<in>set (transactionJourneys (improvedAnalyzeData now txs)).
      \<forall>P\<in>set (j_pspsInvolved j). P \<notin> set inherited_names"
  shows "length (filter (\<lambda>(k, j). j_finalStatus j = Success)
       (transactionJourneys (improvedAnalyzeData now txs)))
     \<le> sum_list (map (\<lambda>(P, s). ps_uniqueApproved s)
          (pspStats (pspLevel (improvedAnalyzeData now txs)))) \<and>
     totalApprovedTransactions (pspLevel (improvedAnalyzeData now txs)) =
       sum_list (map (\<lambda>(P, s). ps_uniqueApproved s)
          (pspStats (pspLevel (improvedAnalyzeData now txs))))"
proof -
  let ?js = "improved_journeys now txs"
  let ?g = "\<lambda>e :: string \<times> Journey.
      card {P \<in> a_pspName ` set (j_attempts (snd e)) - set inherited_names.
        pspApprovedThisJourney (snd e) P}"
  let ?f = "\<lambda>e :: string \<times> Journey. if j_finalStatus (snd e) = Success then 1 else (0::nat)"
  have "\<forall>e\<in>set ?js. ?f e \<le> ?g e"
  proof
    fix e assume e: "e \<in> set ?js"
    then have m: "(fst e, snd e) \<in> set ?js" by simp
    have own: "\<forall>P\<in>set (j_pspsInvolved (snd e)). P \<notin> set inherited_names"
      using assms e unfolding transactionJourneys_improved by (cases e) auto
    show "?f e \<le> ?g e"
      using successful_journey_has_approving_psp [OF m _ own] by simp
  qed
  then have "sum_list (map ?f ?js) \<le> sum_list (map ?g ?js)"
    by (rule sum_list_mono_nat)
  moreover have "sum_list (map ?f ?js) = length (filter (\<lambda>e. j_finalStatus (snd e) = Success) ?js)"
    by (rule sum_list_if_filter)
  moreover have "sum_list (map ?g ?js) =
      sum_list (map (\<lambda>e. ps_uniqueApproved (snd e)) (improved_pspStats (map snd ?js)))"
    by (simp add: uniqueApproved_sum comp_def)
  ultimately have "length (filter (\<lambda>e. j_finalStatus (snd e) = Success) ?js) \<le>
      sum_list (map (\<lambda>e. ps_uniqueApproved (snd e)) (improved_pspStats (map snd ?js)))"
    by simp
  moreover have "totalApprovedTransactions (pspLevel (improvedAnalyzeData now txs)) =
      sum_list (map (\<lambda>e. ps_uniqueApproved (snd e)) (improved_pspStats (map snd ?js)))"
    by (simp add: improvedAnalyzeData_def Let_def)
  ultimately show ?thesis
    unfolding transactionJourneys_improved pspStats_improved
    by (simp add: case_prod_unfold)
qed

text \<open>
  C6. The claim fails for a PSP whose name is an inherited property name. For the single
  transaction of order \<open>o1\<close>, approved by a PSP named \<open>toString\<close>, the call returns with one
  journey whose \<open>finalStatus\<close> is \<open>success\<close>, while the sum over all PSPs of
  \<open>uniqueApproved\<close>, which is \<open>pspLevelMetrics.totalApprovedTransactions\<close>, is 0.
\<close>

theorem C6_success_of_inherited_psp_name_not_covered:
  "call_improvedAnalyzeData epoch inherited_psp_name =
     Inr (improvedAnalyzeData epoch inherited_psp_name) \<and>
   length (filter (\<lambda>(k, j). j_finalStatus j = Success)
     (transactionJourneys (improvedAnalyzeData epoch inherited_psp_name))) = 1 \<and>
   sum_list (map (\<lambda>(P, s). ps_uniqueApproved s)
     (pspStats (pspLevel (improvedAnalyzeData epoch inherited_psp_name)))) = 0 \<and>
   totalApprovedTransactions (pspLevel (improvedAnalyzeData epoch inherited_psp_name)) = 0"
proof -
  have "\<not> raises_TypeError inherited_psp_name"
    by code_simp
  then have a: "call_improvedAnalyzeData epoch inherited_psp_name =
      Inr (improvedAnalyzeData epoch inherited_psp_name)"
    by (simp add: call_improvedAnalyzeData_def)
  have b: "length (filter (\<lambda>(k, j). j_finalStatus j = Success)
      (transactionJourneys (improvedAnalyzeData epoch inherited_psp_name))) = 1"
    by code_simp
  have c: "sum_list (map (\<lambda>(P, s). ps_uniqueApproved s)
      (pspStats (pspLevel (improvedAnalyzeData epoch inherited_psp_name)))) = 0"
    by code_simp
  have d: "totalApprovedTransactions (pspLevel (improvedAnalyzeData epoch inherited_psp_name)) = 0"
    by code_simp
  show ?thesis by (rule conjI [OF a conjI [OF b conjI [OF c d]]])
qed

subsection \<open>Monotonicity of the recalculation\<close>

lemma recalc_fold_total:
  "fst (foldl (recalc_step E) c js) + snd (foldl (recalc_step E) c js) =
     fst c + snd c +
     length (filter (\<lambda>j. \<exists>a\<in>set (j_attempts j). a_pspName a \<notin> set E) js)"
proof (induction js arbitrary: c)
  case Nil
  then show ?case by simp
next
  case (Cons j js)
  have "fst (recalc_step E c j) + snd (recalc_step E c j) =
      fst c + snd c + (if \<exists>a\<in>set (j_attempts j). a_pspName a \<notin> set E then 1 else 0)"
    by (cases c) (auto simp: recalc_step_def list_ex_iff)
  then show ?case by (simp add: Cons)
qed

lemma length_filter_mono:
  "\<forall>x\<in>set xs. P x \<longrightarrow> Q x \<Longrightarrow> length (filter P xs) \<le> length (filter Q xs)"
  by (induction xs) auto

lemma recalc_processed:
  "totalProcessedTransactions (recalculateWithPSPExclusions (improvedAnalyzeData now txs) E) =
     length (filter (\<lambda>j. \<exists>a\<in>set (j_attempts j). a_pspName a \<notin> set E)
       (map snd (improved_journeys now txs)))"
proof (cases "E = []")
  case True
  have "filter (\<lambda>j. \<exists>a\<in>set (j_attempts j). a_pspName a \<notin> set E) (map snd (improved_journeys now txs)) =
      map snd (improved_journeys now txs)"
  proof (rule filter_True, clarify)
    fix j assume "j \<in> set (map snd (improved_journeys now txs))"
    then obtain k where "(k, j) \<in> set (improved_journeys now txs)" by auto
    then have "j_attempts j \<noteq> []" by (rule improved_journeys_nonempty)
    then show "\<exists>a\<in>set (j_attempts j). a_pspName a \<notin> set E"
      using True by (cases "j_attempts j") auto
  qed
  then show ?thesis
    using True by (simp add: recalculateWithPSPExclusions_def transactionLevel_processed)
next
  case False
  let ?js = "map snd (improved_journeys now txs)"
  have f: "filter (\<lambda>j. list_ex (\<lambda>psp. psp \<notin> set E) (j_pspsInvolved j)) ?js =
      filter (\<lambda>j. \<exists>a\<in>set (j_attempts j). a_pspName a \<notin> set E) ?js"
  proof (rule filter_cong [OF refl])
    fix j assume "j \<in> set ?js"
    then obtain k where "(k, j) \<in> set (improved_journeys now txs)" by auto
    then have "set (j_pspsInvolved j) = a_pspName ` set (j_attempts j)"
      by (rule improved_journeys_psps)
    then show "list_ex (\<lambda>psp. psp \<notin> set E) (j_pspsInvolved j) =
        (\<exists>a\<in>set (j_attempts j). a_pspName a \<notin> set E)"
      by (auto simp: list_ex_iff)
  qed
  show ?thesis
    using False
    by (simp add: recalculateWithPSPExclusions_def Let_def transactionJourneys_improved f
        recalc_fold_total)
qed

text \<open>
  C3. For a result of \<^verbatim>\<open>improvedAnalyzeData\<close>, adding a PSP to the exclusion list never
  increases the recalculated \<open>totalProcessedTransactions\<close>, and for a non-empty exclusion
  list the recalculated total is at most the baseline
  \<open>transactionLevelMetrics.totalProcessedTransactions\<close>.
\<close>

theorem C3_exclusion_monotone:
  "(set E' = insert p (set E) \<longrightarrow>
      totalProcessedTransactions (recalculateWithPSPExclusions (improvedAnalyzeData now txs) E')
      \<le> totalProcessedTransactions (recalculateWithPSPExclusions (improvedAnalyzeData now txs) E)) \<and>
   (E \<noteq> [] \<longrightarrow>
      totalProcessedTransactions (recalculateWithPSPExclusions (improvedAnalyzeData now txs) E)
      \<le> totalProcessedTransactions (transactionLevel (improvedAnalyzeData now txs)))"
proof (intro conjI impI)
  assume "set E' = insert p (set E)"
  then have "\<forall>j\<in>set (map snd (improved_journeys now txs)).
      (\<exists>a\<in>set (j_attempts j). a_pspName a \<notin> set E') \<longrightarrow>
      (\<exists>a\<in>set (j_attempts j). a_pspName a \<notin> set E)"
    by auto
  then show "totalProcessedTransactions (recalculateWithPSPExclusions (improvedAnalyzeData now txs) E')
      \<le> totalProcessedTransactions (recalculateWithPSPExclusions (improvedAnalyzeData now txs) E)"
    unfolding recalc_processed by (rule length_filter_mono)
next
  have "length (filter (\<lambda>j. \<exists>a\<in>set (j_attempts j). a_pspName a \<notin> set E)
       (map snd (improved_journeys now txs))) \<le> length (map snd (improved_journeys now txs))"
    by (rule length_filter_le)
  then show "totalProcessedTransactions (recalculateWithPSPExclusions (improvedAnalyzeData now txs) E)
      \<le> totalProcessedTransactions (transactionLevel (improvedAnalyzeData now txs))"
    unfolding recalc_processed transactionLevel_processed by simp
qed

theorem C3_witness:
  "set [''A'', ''B''] = insert ''A'' (set [''B'']) \<and> [''B''] \<noteq> [] \<and>
   totalProcessedTransactions (transactionLevel (improvedAnalyzeData epoch spec_example)) = 2 \<and>
   totalApprovedTransactions (recalculateWithPSPExclusions (improvedAnalyzeData epoch spec_example) [''B'']) = 1 \<and>
   totalUniqueDeclinedTransactions (recalculateWithPSPExclusions (improvedAnalyzeData epoch spec_example) [''B'']) = 1 \<and>
   totalProcessedTransactions (recalculateWithPSPExclusions (improvedAnalyzeData epoch spec_example) [''B'']) = 2 \<and>
   totalProcessedTransactions (recalculateWithPSPExclusions (improvedAnalyzeData epoch spec_example) [''A'', ''B'']) = 0 \<and>
   totalProcessedTransactions (recalculateWithPSPExclusions (improvedAnalyzeData epoch spec_example) [''A'', ''B''])
     \<le> totalProcessedTransactions (recalculateWithPSPExclusions (improvedAnalyzeData epoch spec_example) [''B'']) \<and>
   totalProcessedTransactions (recalculateWithPSPExclusions (improvedAnalyzeData epoch spec_example) [''B''])
     \<le> totalProcessedTransactions (transactionLevel (improvedAnalyzeData epoch spec_example))"
proof -
  have a: "set [''A'', ''B''] = insert ''A'' (set [''B''])" by simp
  have b: "[''B''] \<noteq> []" by simp
  have c: "totalProcessedTransactions (transactionLevel (improvedAnalyzeData epoch spec_example)) = 2"
    by code_simp
  have d: "totalApprovedTransactions (recalculateWithPSPExclusions (improvedAnalyzeData epoch spec_example) [''B'']) = 1"
    by code_simp
  have e: "totalUniqueDeclinedTransactions (recalculateWithPSPExclusions (improvedAnalyzeData epoch spec_example) [''B'']) = 1"
    by code_simp
  have f: "totalProcessedTransactions (recalculateWithPSPExclusions (improvedAnalyzeData epoch spec_example) [''B'']) = 2"
    by code_simp
  have g: "totalProcessedTransactions (recalculateWithPSPExclusions (improvedAnalyzeData epoch spec_example) [''A'', ''B'']) = 0"
    by code_simp
  from C3_exclusion_monotone [of "[''A'', ''B'']" "''A''" "[''B'']" epoch spec_example] a b
  have "totalProcessedTransactions (recalculateWithPSPExclusions (improvedAnalyzeData epoch spec_example) [''A'', ''B''])
     \<le> totalProcessedTransactions (recalculateWithPSPExclusions (improvedAnalyzeData epoch spec_example) [''B''])"
    and "totalProcessedTransactions (recalculateWithPSPExclusions (improvedAnalyzeData epoch spec_example) [''B''])
     \<le> totalProcessedTransactions (transactionLevel (improvedAnalyzeData epoch spec_example))"
    by blast+
  with a b c d e f g show ?thesis by blast
qed

subsection \<open>Cross-PSP flows of analyzeData\<close>

lemma find_Some_split:
  "find P xs = Some a \<Longrightarrow> \<exists>pre post. xs = pre @ a # post \<and> (\<forall>b\<in>set pre. \<not> P b) \<and> P a"
proof (induction xs)
  case Nil
  then show ?case by simp
next
  case (Cons x xs)
  show ?case
  proof (cases "P x")
    case True
    with Cons.prems have "x = a" by simp
    with True have "x # xs = [] @ a # xs \<and> (\<forall>b\<in>set []. \<not> P b) \<and> P a" by simp
    then show ?thesis by blast
  next
    case False
    with Cons.prems have "find P xs = Some a" by simp
    with Cons.IH obtain pre post where "xs = pre @ a # post" "\<forall>b\<in>set pre. \<not> P b" "P a"
      by blast
    with False have "x # xs = (x # pre) @ a # post \<and> (\<forall>b\<in>set (x # pre). \<not> P b) \<and> P a"
      by simp
    then show ?thesis by blast
  qed
qed

lemma declinedPSPs_fold:
  "distinct D \<Longrightarrow>
     distinct (foldl (declinedPSPs_step P0) D as) \<and>
     set (foldl (declinedPSPs_step P0) D as) =
       set D \<union> {P. P \<noteq> P0 \<and> (\<exists>b\<in>set as. a_pspName b = P \<and> isDeclined (a_status b))}"
proof (induction as arbitrary: D)
  case Nil
  then show ?case by simp
next
  case (Cons a as)
  have d: "distinct (declinedPSPs_step P0 D a)"
    using Cons.prems by (simp add: declinedPSPs_step_def)
  have s: "set (declinedPSPs_step P0 D a) =
      set D \<union> (if a_pspName a \<noteq> P0 \<and> isDeclined (a_status a) then {a_pspName a} else {})"
    by (auto simp: declinedPSPs_step_def)
  from Cons.IH [OF d] s show ?case by auto
qed

lemma analyze_finish_success:
  "j_finalStatus (analyze_finish j0) = Success \<Longrightarrow>
     \<exists>a. first_approved (j_attempts (analyze_finish j0)) = Some a"
proof -
  assume "j_finalStatus (analyze_finish j0) = Success"
  then have "\<exists>a\<in>set (j_attempts (analyze_finish j0)). isApproved (a_status a)"
    using analyze_finish_status [of j0] by (auto split: if_splits)
  then show ?thesis
    unfolding first_approved_def using find_Some_ex [of "\<lambda>a. isApproved (a_status a)"] by blast
qed

lemma journey_flows_Some:
  assumes "1 < length (j_pspsInvolved j)" and "j_finalStatus j = Success"
    and "first_approved (j_attempts j) = Some a"
  shows "journey_flows j =
     (if foldl (declinedPSPs_step (a_pspName a)) [] (j_attempts j) = [] then []
      else [\<lparr>f_merchantOrderId = j_merchantOrderId j,
             f_approvedBy = a_pspName a,
             f_declinedBy = foldl (declinedPSPs_step (a_pspName a)) [] (j_attempts j),
             f_country = j_country j,
             f_amount = a_amount a,
             f_currency = a_currency a\<rparr>])"
  using assms by (simp add: journey_flows_def Let_def)

lemma journey_flows_none:
  "\<not> (1 < length (j_pspsInvolved j) \<and> j_finalStatus j = Success) \<Longrightarrow> journey_flows j = []"
  unfolding journey_flows_def by (rule if_not_P)

text \<open>
  C7, as the code has it. For a journey of \<^verbatim>\<open>analyzeData\<close> with \<open>finalStatus\<close> \<open>success\<close> and at
  least two distinct PSPs, \<open>approvedBy\<close> is the PSP of the first approving attempt in the
  sorted attempt order, and \<open>declinedBy\<close> lists, each once, exactly the other PSPs that
  have an attempt whose lower-cased status contains \<open>declined\<close>, \<open>fail\<close> or \<open>error\<close>;
  the journey pushes this one flow when the list is non-empty and nothing when it is
  empty. A journey that is not successful or has a single PSP pushes nothing.
\<close>

theorem C7_cross_psp_flow:
  "\<forall>(k, j)\<in>set (analyze_journeys txs).
     set (journey_flows j) \<subseteq> set (analyze_crossPSPFlows txs) \<and>
     (if 2 \<le> length (j_pspsInvolved j) \<and> j_finalStatus j = Success
      then \<exists>pre a post D.
             j_attempts j = pre @ a # post \<and>
             (\<forall>b\<in>set pre. \<not> (sublist ''approved'' (toLowerCase (a_status b)) \<or>
                               sublist ''success'' (toLowerCase (a_status b)))) \<and>
             (sublist ''approved'' (toLowerCase (a_status a)) \<or>
              sublist ''success'' (toLowerCase (a_status a))) \<and>
             distinct D \<and>
             set D = {P. P \<noteq> a_pspName a \<and>
                        (\<exists>b\<in>set (j_attempts j). a_pspName b = P \<and>
                           (sublist ''declined'' (toLowerCase (a_status b)) \<or>
                            sublist ''fail'' (toLowerCase (a_status b)) \<or>
                            sublist ''error'' (toLowerCase (a_status b))))} \<and>
             journey_flows j =
               (if D = [] then []
                else [\<lparr>f_merchantOrderId = j_merchantOrderId j,
                       f_approvedBy = a_pspName a,
                       f_declinedBy = D,
                       f_country = j_country j,
                       f_amount = a_amount a,
                       f_currency = a_currency a\<rparr>])
      else journey_flows j = [])"
proof (intro ballI, clarify, intro conjI)
  fix k j assume kj: "(k, j) \<in> set (analyze_journeys txs)"
  show "set (journey_flows j) \<subseteq> set (analyze_crossPSPFlows txs)"
    using kj by (force simp: analyze_crossPSPFlows_def)
  show "if 2 \<le> length (j_pspsInvolved j) \<and> j_finalStatus j = Success
      then \<exists>pre a post D.
             j_attempts j = pre @ a # post \<and>
             (\<forall>b\<in>set pre. \<not> (sublist ''approved'' (toLowerCase (a_status b)) \<or>
                               sublist ''success'' (toLowerCase (a_status b)))) \<and>
             (sublist ''approved'' (toLowerCase (a_status a)) \<or>
              sublist ''success'' (toLowerCase (a_status a))) \<and>
             distinct D \<and>
             set D = {P. P \<noteq> a_pspName a \<and>
                        (\<exists>b\<in>set (j_attempts j). a_pspName b = P \<and>
                           (sublist ''declined'' (toLowerCase (a_status b)) \<or>
                            sublist ''fail'' (toLowerCase (a_status b)) \<or>
                            sublist ''error'' (toLowerCase (a_status b))))} \<and>
             journey_flows j =
               (if D = [] then []
                else [\<lparr>f_merchantOrderId = j_merchantOrderId j,
                       f_approvedBy = a_pspName a,
                       f_declinedBy = D,
                       f_country = j_country j,
                       f_amount = a_amount a,
                       f_currency = a_currency a\<rparr>])
      else journey_flows j = []"
  proof (cases "2 \<le> length (j_pspsInvolved j) \<and> j_finalStatus j = Success")
    case False
    then have "\<not> (1 < length (j_pspsInvolved j) \<and> j_finalStatus j = Success)" by auto
    then have "journey_flows j = []" by (rule journey_flows_none)
    then show ?thesis unfolding if_not_P [OF False] .
  next
    case True
    from kj obtain j0 where j: "j = analyze_finish j0"
      by (auto simp: analyze_journeys_def)
    with True obtain a where a: "first_approved (j_attempts j) = Some a"
      using analyze_finish_success [of j0] by auto
    from find_Some_split [OF a [unfolded first_approved_def]]
    obtain pre post where split: "j_attempts j = pre @ a # post"
      and pre: "\<forall>b\<in>set pre. \<not> isApproved (a_status b)" and ok: "isApproved (a_status a)"
      by blast
    define D where "D = foldl (declinedPSPs_step (a_pspName a)) [] (j_attempts j)"
    have D: "distinct D" "set D = {P. P \<noteq> a_pspName a \<and>
        (\<exists>b\<in>set (j_attempts j). a_pspName b = P \<and> isDeclined (a_status b))}"
      using declinedPSPs_fold [of "[]" "a_pspName a" "j_attempts j"] by (simp_all add: D_def)
    have fl: "journey_flows j =
        (if D = [] then []
         else [\<lparr>f_merchantOrderId = j_merchantOrderId j,
                f_approvedBy = a_pspName a,
                f_declinedBy = D,
                f_country = j_country j,
                f_amount = a_amount a,
                f_currency = a_currency a\<rparr>])"
      unfolding D_def using True a by (intro journey_flows_Some) auto
    have body: "j_attempts j = pre @ a # post \<and>
        (\<forall>b\<in>set pre. \<not> (sublist ''approved'' (toLowerCase (a_status b)) \<or>
                          sublist ''success'' (toLowerCase (a_status b)))) \<and>
        (sublist ''approved'' (toLowerCase (a_status a)) \<or>
         sublist ''success'' (toLowerCase (a_status a))) \<and>
        distinct D \<and>
        set D = {P. P \<noteq> a_pspName a \<and>
                   (\<exists>b\<in>set (j_attempts j). a_pspName b = P \<and>
                      (sublist ''declined'' (toLowerCase (a_status b)) \<or>
                       sublist ''fail'' (toLowerCase (a_status b)) \<or>
                       sublist ''error'' (toLowerCase (a_status b))))} \<and>
        journey_flows j =
          (if D = [] then []
           else [\<lparr>f_merchantOrderId = j_merchantOrderId j,
                  f_approvedBy = a_pspName a,
                  f_declinedBy = D,
                  f_country = j_country j,
                  f_amount = a_amount a,
                  f_currency = a_currency a\<rparr>])"
      by (rule conjI [OF split conjI [OF pre [unfolded isApproved_iff]
            conjI [OF ok [unfolded isApproved_iff]
              conjI [OF D(1) conjI [OF D(2) [unfolded isDeclined_iff] fl]]]]])
    have "\<exists>pre a post D. j_attempts j = pre @ a # post \<and>
            (\<forall>b\<in>set pre. \<not> (sublist ''approved'' (toLowerCase (a_status b)) \<or>
                              sublist ''success'' (toLowerCase (a_status b)))) \<and>
            (sublist ''approved'' (toLowerCase (a_status a)) \<or>
             sublist ''success'' (toLowerCase (a_status a))) \<and>
            distinct D \<and>
            set D = {P. P \<noteq> a_pspName a \<and>
                       (\<exists>b\<in>set (j_attempts j). a_pspName b = P \<and>
                          (sublist ''declined'' (toLowerCase (a_status b)) \<or>
                           sublist ''fail'' (toLowerCase (a_status b)) \<or>
                           sublist ''error'' (toLowerCase (a_status b))))} \<and>
            journey_flows j =
              (if D = [] then []
               else [\<lparr>f_merchantOrderId = j_merchantOrderId j,
                      f_approvedBy = a_pspName a,
                      f_declinedBy = D,
                      f_country = j_country j,
                      f_amount = a_amount a,
                      f_currency = a_currency a\<rparr>])"
      by (rule exI [of _ pre], rule exI [of _ a], rule exI [of _ post], rule exI [of _ D])
        (rule body)
    then show ?thesis unfolding if_P [OF True] .
  qed
qed

theorem C7_witness:
  "length (analyze_journeys declined_then_approved) = 1 \<and>
   map (j_finalStatus \<circ> snd) (analyze_journeys declined_then_approved) = [Success] \<and>
   map (j_pspsInvolved \<circ> snd) (analyze_journeys declined_then_approved) = [[''A'', ''B'']] \<and>
   analyze_crossPSPFlows declined_then_approved =
     [\<lparr>f_merchantOrderId = ''o1'', f_approvedBy = ''B'', f_declinedBy = [''A''],
       f_country = ''US'', f_amount = None, f_currency = None\<rparr>] \<and>
   list_all (\<lambda>(k, j).
     set (journey_flows j) \<subseteq> set (analyze_crossPSPFlows declined_then_approved) \<and>
     (if 2 \<le> length (j_pspsInvolved j) \<and> j_finalStatus j = Success
      then \<exists>pre a post D.
             j_attempts j = pre @ a # post \<and>
             (\<forall>b\<in>set pre. \<not> (sublist ''approved'' (toLowerCase (a_status b)) \<or>
                               sublist ''success'' (toLowerCase (a_status b)))) \<and>
             (sublist ''approved'' (toLowerCase (a_status a)) \<or>
              sublist ''success'' (toLowerCase (a_status a))) \<and>
             distinct D \<and>
             set D = {P. P \<noteq> a_pspName a \<and>
                        (\<exists>b\<in>set (j_attempts j). a_pspName b = P \<and>
                           (sublist ''declined'' (toLowerCase (a_status b)) \<or>
                            sublist ''fail'' (toLowerCase (a_status b)) \<or>
                            sublist ''error'' (toLowerCase (a_status b))))} \<and>
             journey_flows j =
               (if D = [] then []
                else [\<lparr>f_merchantOrderId = j_merchantOrderId j,
                       f_approvedBy = a_pspName a,
                       f_declinedBy = D,
                       f_country = j_country j,
                       f_amount = a_amount a,
                       f_currency = a_currency a\<rparr>])
      else journey_flows j = []))
     (analyze_journeys declined_then_approved)"
proof -
  have a: "length (analyze_journeys declined_then_approved) = 1"
    by code_simp
  have b: "map (j_finalStatus \<circ> snd) (analyze_journeys declined_then_approved) = [Success]"
    by code_simp
  have c: "map (j_pspsInvolved \<circ> snd) (analyze_journeys declined_then_approved) = [[''A'', ''B'']]"
    by code_simp
  have d: "analyze_crossPSPFlows declined_then_approved =
     [\<lparr>f_merchantOrderId = ''o1'', f_approvedBy = ''B'', f_declinedBy = [''A''],
       f_country = ''US'', f_amount = None, f_currency = None\<rparr>]"
    by code_simp
  have e: "list_all (\<lambda>(k, j).
     set (journey_flows j) \<subseteq> set (analyze_crossPSPFlows declined_then_approved) \<and>
     (if 2 \<le> length (j_pspsInvolved j) \<and> j_finalStatus j = Success
      then \<exists>pre a post D.
             j_attempts j = pre @ a # post \<and>
             (\<forall>b\<in>set pre. \<not> (sublist ''approved'' (toLowerCase (a_status b)) \<or>
                               sublist ''success'' (toLowerCase (a_status b)))) \<and>
             (sublist ''approved'' (toLowerCase (a_status a)) \<or>
              sublist ''success'' (toLowerCase (a_status a))) \<and>
             distinct D \<and>
             set D = {P. P \<noteq> a_pspName a \<and>
                        (\<exists>b\<in>set (j_attempts j). a_pspName b = P \<and>
                           (sublist ''declined'' (toLowerCase (a_status b)) \<or>
                            sublist ''fail'' (toLowerCase (a_status b)) \<or>
                            sublist ''error'' (toLowerCase (a_status b))))} \<and>
             journey_flows j =
               (if D = [] then []
                else [\<lparr>f_merchantOrderId = j_merchantOrderId j,
                       f_approvedBy = a_pspName a,
                       f_declinedBy = D,
                       f_country = j_country j,
                       f_amount = a_amount a,
                       f_currency = a_currency a\<rparr>])
      else journey_flows j = []))
     (analyze_journeys declined_then_approved)"
    unfolding list_all_iff by (rule C7_cross_psp_flow)
  show ?thesis
    by (rule conjI [OF a conjI [OF b conjI [OF c conjI [OF d e]]]])
qed

theorem C7_counterexample:
  "map (j_finalStatus \<circ> snd) (analyze_journeys pending_then_approved) = [Success] \<and>
   map (j_pspsInvolved \<circ> snd) (analyze_journeys pending_then_approved) = [[''A'', ''B'']] \<and>
   map (map a_pspName \<circ> j_attempts \<circ> snd) (analyze_journeys pending_then_approved) =
     [[''A'', ''B'']] \<and>
   map (map (isApproved \<circ> a_status) \<circ> j_attempts \<circ> snd) (analyze_journeys pending_then_approved) =
     [[False, True]] \<and>
   map (claimed_declinedBy ''B'' \<circ> snd) (analyze_journeys pending_then_approved) = [[''A'']] \<and>
   analyze_crossPSPFlows pending_then_approved = [] \<and>
   map (j_finalStatus \<circ> snd) (analyze_journeys approved_with_error_text) = [Success] \<and>
   map (map a_pspName \<circ> j_attempts \<circ> snd) (analyze_journeys approved_with_error_text) =
     [[''A'', ''B'']] \<and>
   map (map (isApproved \<circ> a_status) \<circ> j_attempts \<circ> snd) (analyze_journeys approved_with_error_text) =
     [[True, True]] \<and>
   map (claimed_declinedBy ''A'' \<circ> snd) (analyze_journeys approved_with_error_text) = [[]] \<and>
   map f_approvedBy (analyze_crossPSPFlows approved_with_error_text) = [''A''] \<and>
   map f_declinedBy (analyze_crossPSPFlows approved_with_error_text) = [[''B'']]"
proof -
  have c0: "map (j_finalStatus \<circ> snd) (analyze_journeys pending_then_approved) = [Success]"
    by code_simp
  have c1: "map (j_pspsInvolved \<circ> snd) (analyze_journeys pending_then_approved) = [[''A'', ''B'']]"
    by code_simp
  have c2: "map (map a_pspName \<circ> j_attempts \<circ> snd) (analyze_journeys pending_then_approved) =
     [[''A'', ''B'']]"
    by code_simp
  have c3: "map (map (isApproved \<circ> a_status) \<circ> j_attempts \<circ> snd) (analyze_journeys pending_then_approved) =
     [[False, True]]"
    by code_simp
  have c4: "map (claimed_declinedBy ''B'' \<circ> snd) (analyze_journeys pending_then_approved) = [[''A'']]"
    by code_simp
  have c5: "analyze_crossPSPFlows pending_then_approved = []"
    by code_simp
  have c6: "map (j_finalStatus \<circ> snd) (analyze_journeys approved_with_error_text) = [Success]"
    by code_simp
  have c7: "map (map a_pspName \<circ> j_attempts \<circ> snd) (analyze_journeys approved_with_error_text) =
     [[''A'', ''B'']]"
    by code_simp
  have c8: "map (map (isApproved \<circ> a_status) \<circ> j_attempts \<circ> snd) (analyze_journeys approved_with_error_text) =
     [[True, True]]"
    by code_simp
  have c9: "map (claimed_declinedBy ''A'' \<circ> snd) (analyze_journeys approved_with_error_text) = [[]]"
    by code_simp
  have c10: "map f_approvedBy (analyze_crossPSPFlows approved_with_error_text) = [''A'']"
    by code_simp
  have c11: "map f_declinedBy (analyze_crossPSPFlows approved_with_error_text) = [[''B'']]"
    by code_simp
  show ?thesis
    by (rule conjI [OF c0 conjI [OF c1 conjI [OF c2 conjI [OF c3 conjI [OF c4 conjI [OF c5 conjI [OF c6 conjI [OF c7 conjI [OF c8 conjI [OF c9 conjI [OF c10 c11]]]]]]]]]]])
qed

subsection \<open>Decimal numbers and padding\<close>

lemma digits_small: "n < 10 \<Longrightarrow> digits n = [char_of (48 + n)]"
  by (subst digits.simps) simp

lemma length_digits_ge1: "1 \<le> length (digits n)"
  by (subst digits.simps) simp

lemma length_digits_ge2: "10 \<le> n \<Longrightarrow> 2 \<le> length (digits n)"
proof -
  assume "10 \<le> n"
  then have "digits n = digits (n div 10) @ [char_of (48 + n mod 10)]"
    by (subst digits.simps) simp
  moreover have "1 \<le> length (digits (n div 10))"
    by (rule length_digits_ge1)
  ultimately show ?thesis by simp
qed

lemma padStart2_string_of_int:
  "padStart2 (string_of_int w) =
     (if 0 \<le> w \<and> w < 10 then CHR ''0'' # string_of_int w else string_of_int w)"
proof (cases "0 \<le> w \<and> w < 10")
  case True
  then have "nat w < 10" by linarith
  then have "digits (nat w) = [char_of (48 + nat w)]" by (rule digits_small)
  with True have "string_of_int w = [char_of (48 + nat w)]"
    by (simp add: string_of_int_def)
  then show ?thesis using True by (simp add: padStart2_def)
next
  case False
  have "2 \<le> length (string_of_int w)"
  proof (cases "w < 0")
    case True
    have "1 \<le> length (digits (nat (- w)))" by (rule length_digits_ge1)
    with True show ?thesis by (simp add: string_of_int_def)
  next
    case nonneg: False
    with False have "10 \<le> nat w" by simp
    then have "2 \<le> length (digits (nat w))" by (rule length_digits_ge2)
    with nonneg show ?thesis by (simp add: string_of_int_def)
  qed
  then show ?thesis using False by (simp add: padStart2_def)
qed

subsection \<open>Years and days of a time value\<close>

lemma div_step:
  fixes a :: int
  assumes "0 < n"
  shows "a div n \<le> (a + 1) div n" and "(a + 1) div n \<le> a div n + 1"
proof -
  show "a div n \<le> (a + 1) div n"
    using assms by (intro zdiv_mono1) simp_all
  have "(a + 1) div n \<le> (a + n) div n"
    using assms by (intro zdiv_mono1) simp_all
  also have "\<dots> = a div n + 1"
    using assms by simp
  finally show "(a + 1) div n \<le> a div n + 1" .
qed

lemma DayFromYear_step:
  "DayFromYear y + 364 \<le> DayFromYear (y + 1) \<and> DayFromYear (y + 1) \<le> DayFromYear y + 367"
proof -
  define a b c a' b' c' where "a = (y - 1969) div 4" and "b = (y - 1901) div 100"
    and "c = (y - 1601) div 400" and "a' = (y - 1969 + 1) div 4"
    and "b' = (y - 1901 + 1) div 100" and "c' = (y - 1601 + 1) div 400"
  have eq: "y + 1 - 1969 = y - 1969 + 1" "y + 1 - 1901 = y - 1901 + 1" "y + 1 - 1601 = y - 1601 + 1"
    by simp_all
  have "a \<le> a'" "a' \<le> a + 1" "b \<le> b'" "b' \<le> b + 1" "c \<le> c'" "c' \<le> c + 1"
    unfolding a_def b_def c_def a'_def b'_def c'_def by (rule div_step; simp)+
  moreover have "DayFromYear y = 365 * (y - 1970) + a - b + c"
    by (simp add: DayFromYear_def a_def b_def c_def)
  moreover have "DayFromYear (y + 1) = 365 * (y - 1970) + 365 + a' - b' + c'"
    unfolding DayFromYear_def eq a'_def b'_def c'_def by simp
  ultimately show ?thesis by linarith
qed

lemma year_from_spec:
  "DayFromYear y \<le> d \<Longrightarrow>
     DayFromYear (year_from d y) \<le> d \<and> d < DayFromYear (year_from d y + 1)"
proof (induction d y rule: year_from.induct)
  case (1 d y)
  show ?case
  proof (cases "DayFromYear (y + 1) \<le> d")
    case True
    with 1 show ?thesis by (subst (1 2) year_from.simps) simp
  next
    case False
    with 1 show ?thesis by (subst (1 2) year_from.simps) simp
  qed
qed

lemma floor_div_bounds:
  fixes t :: int
  assumes "0 < m"
  shows "a \<le> t div m \<Longrightarrow> m * a \<le> t" and "t div m < b \<Longrightarrow> t < m * b"
proof -
  have eq: "m * (t div m) + t mod m = t" by (rule mult_div_mod_eq)
  have lo: "0 \<le> t mod m" and hi: "t mod m < m" using assms by simp_all
  {
    assume "a \<le> t div m"
    then have "m * a \<le> m * (t div m)" using assms by (simp add: mult_left_mono)
    with eq lo show "m * a \<le> t" by linarith
  }
  {
    assume "t div m < b"
    then have "t div m + 1 \<le> b" by simp
    then have "m * (t div m + 1) \<le> m * b" using assms by (simp only: mult_left_mono less_imp_le)
    then have "m * (t div m) + m \<le> m * b" by (simp add: distrib_left)
    with eq hi show "t < m * b" by linarith
  }
qed

lemma DayFromYear_1970: "DayFromYear 1970 = 0"
  by (simp add: DayFromYear_def)

lemma DayFromYear_upper: "0 \<le> k \<Longrightarrow> DayFromYear (1970 + k) \<le> 367 * k"
proof (induction k rule: int_ge_induct)
  case base
  then show ?case by (simp add: DayFromYear_1970)
next
  case (step i)
  have "DayFromYear (1970 + i + 1) \<le> DayFromYear (1970 + i) + 367"
    using DayFromYear_step [of "1970 + i"] by simp
  with step show ?case by (simp add: add.assoc)
qed

lemma DayFromYear_lower: "k \<le> 0 \<Longrightarrow> DayFromYear (1970 + k) \<le> 364 * k"
proof (induction k rule: int_le_induct)
  case base
  then show ?case by (simp add: DayFromYear_1970)
next
  case (step i)
  have "DayFromYear (1970 + (i - 1)) + 364 \<le> DayFromYear (1970 + (i - 1) + 1)"
    using DayFromYear_step [of "1970 + (i - 1)"] by simp
  moreover have "1970 + (i - 1) + 1 = 1970 + i" by simp
  ultimately have "DayFromYear (1970 + (i - 1)) + 364 \<le> DayFromYear (1970 + i)" by simp
  with step show ?case by simp
qed

lemma DayFromYear_start:
  "DayFromYear (1970 + (if 0 \<le> d then d div 367 else d div 364)) \<le> d"
proof (cases "0 \<le> d")
  case True
  then have "0 \<le> d div 367" by simp
  then have "DayFromYear (1970 + d div 367) \<le> 367 * (d div 367)" by (rule DayFromYear_upper)
  also have "\<dots> \<le> d" by (rule floor_div_bounds(1)) simp_all
  finally show ?thesis using True by simp
next
  case False
  then have "d div 364 < 0" by (simp add: pos_imp_zdiv_neg_iff)
  then have "d div 364 \<le> 0" by simp
  then have "DayFromYear (1970 + d div 364) \<le> 364 * (d div 364)" by (rule DayFromYear_lower)
  also have "\<dots> \<le> d" by (rule floor_div_bounds(1)) simp_all
  finally show ?thesis using False by simp
qed

text \<open>
  \<open>YearFromTime t\<close> is the year of \<open>t\<close>: the largest \<open>y\<close> with \<open>TimeFromYear y \<le> t\<close>.
\<close>

lemma YearFromTime_spec:
  "TimeFromYear (YearFromTime t) \<le> t \<and> t < TimeFromYear (YearFromTime t + 1)"
proof -
  define y where "y = YearFromTime t"
  have "DayFromYear y \<le> Day t \<and> Day t < DayFromYear (y + 1)"
    unfolding y_def YearFromTime_def by (rule year_from_spec) (rule DayFromYear_start)
  then have a: "DayFromYear y \<le> t div msPerDay" and b: "t div msPerDay < DayFromYear (y + 1)"
    by (simp_all add: Day_def)
  have pos: "0 < msPerDay" by (simp add: msPerDay_def)
  from floor_div_bounds(1) [OF pos a] floor_div_bounds(2) [OF pos b]
  show ?thesis by (simp add: TimeFromYear_def y_def)
qed

lemma DayFromYear_less: "y < y' \<Longrightarrow> DayFromYear y < DayFromYear y'"
proof (induction y' rule: int_gr_induct)
  case base
  then show ?case using DayFromYear_step [of y] by simp
next
  case (step i)
  then show ?case using DayFromYear_step [of i] by simp
qed

lemma YearFromTime_unique:
  assumes "TimeFromYear y \<le> t" and "t < TimeFromYear (y + 1)"
  shows "YearFromTime t = y"
proof -
  have pos: "0 < msPerDay" by (simp add: msPerDay_def)
  let ?z = "YearFromTime t"
  from YearFromTime_spec [of t]
  have z1: "TimeFromYear ?z \<le> t" and z2: "t < TimeFromYear (?z + 1)" by simp_all
  have "\<not> ?z < y"
  proof
    assume "?z < y"
    then have "?z + 1 \<le> y" by simp
    then have "DayFromYear (?z + 1) \<le> DayFromYear y"
      using DayFromYear_less [of "?z + 1" y] by (cases "?z + 1 = y") simp_all
    then have "TimeFromYear (?z + 1) \<le> TimeFromYear y"
      using pos by (simp add: TimeFromYear_def)
    with z2 assms(1) show False by simp
  qed
  moreover have "\<not> y < ?z"
  proof
    assume "y < ?z"
    then have "y + 1 \<le> ?z" by simp
    then have "DayFromYear (y + 1) \<le> DayFromYear ?z"
      using DayFromYear_less [of "y + 1" ?z] by (cases "y + 1 = ?z") simp_all
    then have "TimeFromYear (y + 1) \<le> TimeFromYear ?z"
      using pos by (simp add: TimeFromYear_def)
    with z1 assms(2) show False by simp
  qed
  ultimately show ?thesis by simp
qed

lemma DayWithinYear_bounds:
  "0 \<le> DayWithinYear t \<and>
   DayWithinYear t < DayFromYear (YearFromTime t + 1) - DayFromYear (YearFromTime t)"
proof -
  have "DayFromYear (YearFromTime t) \<le> Day t \<and> Day t < DayFromYear (YearFromTime t + 1)"
    unfolding YearFromTime_def by (rule year_from_spec) (rule DayFromYear_start)
  then show ?thesis by (simp add: DayWithinYear_def)
qed

text \<open>
  The whole days from local midnight of 1 January of year \<open>y\<close> to \<open>t\<close> are the calendar
  days between the two dates when the offset of local time at \<open>t\<close> is the one of that
  midnight.
\<close>

lemma days_since_jan1:
  assumes "LocalTZA t True = LocalTZA (TimeFromYear y) False"
  shows "(t - UTC LocalTZA (TimeFromYear y)) div msPerDay =
     Day (LocalTime LocalTZA t) - DayFromYear y"
proof -
  have "t - UTC LocalTZA (TimeFromYear y) = LocalTime LocalTZA t + (- DayFromYear y) * msPerDay"
    using assms by (simp add: UTC_def LocalTime_def TimeFromYear_def)
  then have "(t - UTC LocalTZA (TimeFromYear y)) div msPerDay =
      (LocalTime LocalTZA t + (- DayFromYear y) * msPerDay) div msPerDay"
    by simp
  also have "\<dots> = LocalTime LocalTZA t div msPerDay + (- DayFromYear y)"
  proof -
    have ne: "msPerDay \<noteq> 0" by (simp add: msPerDay_def)
    from div_mult_self1 [OF ne, of "LocalTime LocalTZA t" "- DayFromYear y"]
    show ?thesis by (simp only: add.commute)
  qed
  finally show ?thesis by (simp add: Day_def)
qed

lemma new_Date_Jan1_Some:
  assumes "new_Date_Jan1 LocalTZA year = Some start" and "\<not> (0 \<le> year \<and> year \<le> 99)"
  shows "start = UTC LocalTZA (TimeFromYear year)"
  using assms by (auto simp: new_Date_Jan1_def TimeClip_def MakeFullYear_def split: if_splits)

lemma calendar_day_of_year:
  assumes "new_Date_Jan1 LocalTZA (YearFromTime (LocalTime LocalTZA t)) = Some start"
    and "\<not> (0 \<le> YearFromTime (LocalTime LocalTZA t) \<and> YearFromTime (LocalTime LocalTZA t) \<le> 99)"
    and "LocalTZA t True = LocalTZA (TimeFromYear (YearFromTime (LocalTime LocalTZA t))) False"
  shows "(t - start) div msPerDay = DayWithinYear (LocalTime LocalTZA t)"
  unfolding new_Date_Jan1_Some [OF assms(1, 2)] days_since_jan1 [OF assms(3)] DayWithinYear_def
  by (rule refl)

lemma jan1_local_midnight:
  assumes "new_Date_Jan1 LocalTZA year = Some start" and "\<not> (0 \<le> year \<and> year \<le> 99)"
    and "LocalTZA start True = LocalTZA (TimeFromYear year) False"
  shows "LocalTime LocalTZA start = TimeFromYear year"
  using assms(3) unfolding new_Date_Jan1_Some [OF assms(1, 2)]
  by (simp add: LocalTime_def UTC_def)

subsection \<open>Weekly bucket keys\<close>

lemma getISOWeek_in_zone:
  assumes "date_in_zone LocalTZA d" and "getTime d = Some t"
  shows "getISOWeek d =
     (case new_Date_Jan1 LocalTZA (YearFromTime (LocalTime LocalTZA t)) of
        None \<Rightarrow> string_of_int (YearFromTime (LocalTime LocalTZA t)) @ ''-WNaN''
      | Some start \<Rightarrow>
          claimed_week_key (YearFromTime (LocalTime LocalTZA t)) ((t - start) div msPerDay)
            (WeekDay (LocalTime LocalTZA start)))"
proof -
  let ?Y = "YearFromTime (LocalTime LocalTZA t)"
  from assms(1) have all: "\<bar>t\<bar> \<le> 8640000000000000 \<and>
      getFullYear d = ?Y \<and>
      jan1Time d = new_Date_Jan1 LocalTZA (getFullYear d) \<and>
      (case jan1Time d of
         None \<Rightarrow> True | Some start \<Rightarrow> int (jan1Day d) = WeekDay (LocalTime LocalTZA start))"
    unfolding date_in_zone_def assms(2) option.case .
  from all have year: "getFullYear d = ?Y"
    by (rule conjunct2 [THEN conjunct1])
  from all have j1: "jan1Time d = new_Date_Jan1 LocalTZA (getFullYear d)"
    by (rule conjunct2 [THEN conjunct2, THEN conjunct1])
  from all have wd: "case jan1Time d of
      None \<Rightarrow> True | Some start \<Rightarrow> int (jan1Day d) = WeekDay (LocalTime LocalTZA start)"
    by (rule conjunct2 [THEN conjunct2, THEN conjunct2])
  have jan1: "jan1Time d = new_Date_Jan1 LocalTZA ?Y"
    unfolding j1 year by (rule refl)
  show ?thesis
  proof (cases "new_Date_Jan1 LocalTZA ?Y")
    case None
    then have "jan1Time d = None"
      unfolding jan1 .
    with assms(2) year None show ?thesis
      by (simp add: getISOWeek_def)
  next
    case (Some start)
    then have js: "jan1Time d = Some start"
      unfolding jan1 .
    from wd have day: "int (jan1Day d) = WeekDay (LocalTime LocalTZA start)"
      unfolding js by simp
    have fl: "\<lfloor>(of_int (t - start) :: rat) / (24 * 60 * 60 * 1000)\<rfloor> = (t - start) div msPerDay"
      using floor_divide_of_int_eq [of "t - start" 86400000, where ?'a = rat]
      by (simp add: msPerDay_def)
    have "getISOWeek d =
        claimed_week_key ?Y ((t - start) div msPerDay) (WeekDay (LocalTime LocalTZA start))"
      unfolding getISOWeek_def claimed_week_key_def assms(2) js year option.case Let_def fl day
      by (rule refl)
    with Some show ?thesis by simp
  qed
qed

lemma group_step_adds:
  "\<exists>g. (k, g) \<in> set (update_entry k (\<lambda>js. js @ [x]) (init_own_entry k [] acc)) \<and> x \<in> set g"
proof -
  have "k \<in> set (map fst (init_own_entry k [] acc))"
    by (simp only: map_fst_init_own_entry) simp
  then obtain g0 where "(k, g0) \<in> set (init_own_entry k [] acc)" by auto
  then have "(k, g0 @ [x]) \<in> set (update_entry k (\<lambda>js. js @ [x]) (init_own_entry k [] acc))"
    by (force simp: set_update_entry)
  then show ?thesis by force
qed

lemma group_step_keeps:
  assumes "(k', g) \<in> set acc" and "y \<in> set g"
  shows "\<exists>g'. (k', g') \<in> set (update_entry k (\<lambda>js. js @ [x]) (init_own_entry k [] acc)) \<and> y \<in> set g'"
proof -
  from assms(1) have m: "(k', g) \<in> set (init_own_entry k [] acc)"
    by (simp add: init_own_entry_def)
  show ?thesis
  proof (cases "k' = k")
    case True
    with m have "(k', g @ [x]) \<in> set (update_entry k (\<lambda>js. js @ [x]) (init_own_entry k [] acc))"
      by (force simp: set_update_entry)
    with assms(2) show ?thesis by force
  next
    case False
    with m have "(k', g) \<in> set (update_entry k (\<lambda>js. js @ [x]) (init_own_entry k [] acc))"
      by (force simp: set_update_entry)
    with assms(2) show ?thesis by force
  qed
qed

lemma foldl_group_member:
  "(\<forall>j\<in>set js. \<exists>g. (key j, g) \<in>
       set (foldl (\<lambda>g j. update_entry (key j) (\<lambda>js. js @ [j]) (init_own_entry (key j) [] g)) acc js) \<and>
       j \<in> set g) \<and>
   (\<forall>k' g y. (k', g) \<in> set acc \<and> y \<in> set g \<longrightarrow>
      (\<exists>g'. (k', g') \<in>
         set (foldl (\<lambda>g j. update_entry (key j) (\<lambda>js. js @ [j]) (init_own_entry (key j) [] g)) acc js) \<and>
         y \<in> set g'))"
proof (induction js arbitrary: acc)
  case Nil
  then show ?case by auto
next
  case (Cons j js)
  let ?acc' = "update_entry (key j) (\<lambda>js. js @ [j]) (init_own_entry (key j) [] acc)"
  let ?F = "foldl (\<lambda>g j. update_entry (key j) (\<lambda>js. js @ [j]) (init_own_entry (key j) [] g))"
  from Cons [of ?acc']
  have new: "\<forall>j'\<in>set js. \<exists>g. (key j', g) \<in> set (?F ?acc' js) \<and> j' \<in> set g"
    and keep: "\<And>k' g y. (k', g) \<in> set ?acc' \<Longrightarrow> y \<in> set g \<Longrightarrow>
      \<exists>g'. (k', g') \<in> set (?F ?acc' js) \<and> y \<in> set g'"
    by blast+
  have head: "\<exists>g. (key j, g) \<in> set (?F ?acc' js) \<and> j \<in> set g"
    using group_step_adds [of "key j" j acc] keep by blast
  have old: "\<exists>g'. (k', g') \<in> set (?F ?acc' js) \<and> y \<in> set g'"
    if "(k', g) \<in> set acc" "y \<in> set g" for k' g y
    using group_step_keeps [OF that, of "key j" j] keep by blast
  from new head old show ?case by (simp del: foldl_Cons add: foldl_Cons) blast
qed

lemma group_by_member:
  "j \<in> set js \<Longrightarrow> \<exists>g. (key j, g) \<in> set (group_by key js) \<and> j \<in> set g"
  using foldl_group_member [of js key "[]"] by (simp add: group_by_def)

lemma time_add_valid_date:
  assumes "has_valid_date tx" and "\<forall>(k, j)\<in>set js. getTime (j_date j) \<noteq> None"
  shows "\<forall>(k, j)\<in>set (time_add js tx). getTime (j_date j) \<noteq> None"
proof -
  define date where "date = (case tx_processing_date tx of
      DateObject d \<Rightarrow> d | DateString s d \<Rightarrow> d | NoDate \<Rightarrow> invalid_date)"
  have v: "getTime date \<noteq> None"
    using assms(1) by (auto simp: date_def has_valid_date_def split: processing_date.splits)
  define j0 :: TimeJourney where "j0 =
      \<lparr>j_merchantOrderId = orderId_of tx,
       j_country = trim (or_default (tx_country tx) ''Unknown''),
       j_attempts = [], j_finalStatus = Failed, j_totalAttempts = 0, j_pspsInvolved = [],
       j_date = date\<rparr>"
  have "\<forall>(k, j)\<in>set (init_own_entry (orderId_of tx) j0 js). getTime (j_date j) \<noteq> None"
    using assms(2) v set_init_own_entry [of "orderId_of tx" j0 js] by (auto simp: j0_def)
  then have "\<forall>(k, j)\<in>set (push_attempt (orderId_of tx) a (init_own_entry (orderId_of tx) j0 js)).
      getTime (j_date j) \<noteq> None" for a
    by (auto simp: push_attempt_def set_update_entry split: if_splits)
  then show ?thesis
    unfolding time_add_def Let_def date_def [symmetric] j0_def [symmetric] by blast
qed

lemma foldl_time_add_valid_date:
  "\<forall>tx\<in>set txs. has_valid_date tx \<Longrightarrow> \<forall>(k, j)\<in>set js. getTime (j_date j) \<noteq> None \<Longrightarrow>
     \<forall>(k, j)\<in>set (foldl time_add js txs). getTime (j_date j) \<noteq> None"
proof (induction txs arbitrary: js)
  case Nil
  then show ?case by simp
next
  case (Cons tx txs)
  from Cons.prems have "\<forall>(k, j)\<in>set (time_add js tx). getTime (j_date j) \<noteq> None"
    by (intro time_add_valid_date) simp_all
  with Cons.IH Cons.prems(1) show ?case by simp
qed

lemma time_finish_date: "j_date (time_finish j) = j_date j"
  by (simp add: time_finish_def Let_def)

lemma time_journeyArray_valid_date:
  assumes "j \<in> set (time_journeyArray txs)"
  shows "getTime (j_date j) \<noteq> None"
proof -
  from assms obtain k j0 where "(k, j0) \<in> set (foldl time_add [] (filter has_valid_date txs))"
    and j: "j = time_finish j0"
    by (auto simp: time_journeyArray_def)
  moreover have "\<forall>(k, j)\<in>set (foldl time_add [] (filter has_valid_date txs)).
      getTime (j_date j) \<noteq> None"
    by (rule foldl_time_add_valid_date) simp_all
  ultimately have "getTime (j_date j0) \<noteq> None" by blast
  then show ?thesis by (simp add: j time_finish_date)
qed

lemma weekly_keys:
  assumes "time_journeyArray txs \<noteq> []"
  shows "tm_key ` set (weekly (analyzeTimeData localeCompare txs)) = fst ` set (weeklyGroups txs)"
proof -
  from assms have "filter has_valid_date txs \<noteq> []"
    by (auto simp: time_journeyArray_def)
  then have "weekly (analyzeTimeData localeCompare txs) =
      js_sort (byKey localeCompare) (map period_entry (weeklyGroups txs))"
    by (simp add: analyzeTimeData_def Let_def)
  moreover have "tm_key (period_entry e) = fst e" for e
    by (cases e) (simp add: period_entry_def Let_def)
  ultimately show ?thesis
    by (simp add: set_js_sort image_image)
qed

text \<open>
  C8. Let \<open>d\<close> be the date of a journey of \<^verbatim>\<open>analyzeTimeData\<close>, in a host with the local
  time zone adjustment \<open>LocalTZA\<close>. Then \<open>d\<close> is valid, with a time value \<open>t\<close>, and the
  journey is put into the weekly bucket whose key is the decimal local year of \<open>d\<close>, then
  \<open>-W\<close>, then \<open>\<lceil>(days + Jan1Weekday + 1) / 7\<rceil>\<close> padded with a zero to two digits, where
  \<open>days\<close> is the number of whole periods of 24 hours from \<open>start\<close>, the time value of
  \<^verbatim>\<open>new Date(year, 0, 1)\<close>, to \<open>t\<close>, and \<open>Jan1Weekday\<close> is the local weekday of \<open>start\<close>
  (when \<open>start\<close> is not a valid time value the key ends in \<open>-WNaN\<close>). The key is also the
  \<open>week\<close> field of an entry of the returned \<open>weekly\<close> array. When the year is not one of
  0, ..., 99 and the offset of local time at \<open>t\<close> and at \<open>start\<close> is the one of local
  midnight of 1 January, \<open>days\<close> is the day of the year of \<open>d\<close> counted from 0 on
  1 January, and \<open>Jan1Weekday\<close> is the weekday of 1 January of that year.
\<close>

theorem C8_weekly_bucket_key:
  "\<forall>j\<in>set (time_journeyArray txs).
     date_in_zone LocalTZA (j_date j) \<longrightarrow>
     (\<exists>t. getTime (j_date j) = Some t \<and>
        (let year = YearFromTime (LocalTime LocalTZA t)
         in case new_Date_Jan1 LocalTZA year of
              None \<Rightarrow> getISOWeek (j_date j) = string_of_int year @ ''-WNaN''
            | Some start \<Rightarrow>
                (let days = (t - start) div msPerDay;
                     weekKey = claimed_week_key year days (WeekDay (LocalTime LocalTZA start))
                 in getISOWeek (j_date j) = weekKey \<and>
                    (\<exists>js. (weekKey, js) \<in> set (weeklyGroups txs) \<and> j \<in> set js) \<and>
                    weekKey \<in> tm_key ` set (weekly (analyzeTimeData localeCompare txs)) \<and>
                    (\<not> (0 \<le> year \<and> year \<le> 99) \<and>
                     LocalTZA t True = LocalTZA (TimeFromYear year) False \<and>
                     LocalTZA start True = LocalTZA (TimeFromYear year) False \<longrightarrow>
                       days = DayWithinYear (LocalTime LocalTZA t) \<and>
                       WeekDay (LocalTime LocalTZA start) = WeekDay (TimeFromYear year)))))"
proof (intro ballI impI)
  fix j assume j: "j \<in> set (time_journeyArray txs)" and z: "date_in_zone LocalTZA (j_date j)"
  from j obtain t where t: "getTime (j_date j) = Some t"
    using time_journeyArray_valid_date by blast
  define year where "year = YearFromTime (LocalTime LocalTZA t)"
  have key: "getISOWeek (j_date j) =
      (case new_Date_Jan1 LocalTZA year of
         None \<Rightarrow> string_of_int year @ ''-WNaN''
       | Some start \<Rightarrow>
           claimed_week_key year ((t - start) div msPerDay) (WeekDay (LocalTime LocalTZA start)))"
    unfolding year_def by (rule getISOWeek_in_zone [OF z t])
  have grp: "\<exists>js. (getISOWeek (j_date j), js) \<in> set (weeklyGroups txs) \<and> j \<in> set js"
    unfolding weeklyGroups_def
    using group_by_member [OF j, of "\<lambda>j. getISOWeek (j_date j)"] by simp
  from j have "time_journeyArray txs \<noteq> []" by auto
  then have "tm_key ` set (weekly (analyzeTimeData localeCompare txs)) = fst ` set (weeklyGroups txs)"
    by (rule weekly_keys)
  with grp have out: "getISOWeek (j_date j) \<in> tm_key ` set (weekly (analyzeTimeData localeCompare txs))"
    by force
  have body: "case new_Date_Jan1 LocalTZA year of
        None \<Rightarrow> getISOWeek (j_date j) = string_of_int year @ ''-WNaN''
      | Some start \<Rightarrow>
          (let days = (t - start) div msPerDay;
               weekKey = claimed_week_key year days (WeekDay (LocalTime LocalTZA start))
           in getISOWeek (j_date j) = weekKey \<and>
              (\<exists>js. (weekKey, js) \<in> set (weeklyGroups txs) \<and> j \<in> set js) \<and>
              weekKey \<in> tm_key ` set (weekly (analyzeTimeData localeCompare txs)) \<and>
              (\<not> (0 \<le> year \<and> year \<le> 99) \<and>
               LocalTZA t True = LocalTZA (TimeFromYear year) False \<and>
               LocalTZA start True = LocalTZA (TimeFromYear year) False \<longrightarrow>
                 days = DayWithinYear (LocalTime LocalTZA t) \<and>
                 WeekDay (LocalTime LocalTZA start) = WeekDay (TimeFromYear year)))"
  proof (cases "new_Date_Jan1 LocalTZA year")
    case None
    with key show ?thesis by simp
  next
    case (Some start)
    define weekKey where
      "weekKey = claimed_week_key year ((t - start) div msPerDay) (WeekDay (LocalTime LocalTZA start))"
    from key Some have k: "getISOWeek (j_date j) = weekKey"
      by (simp add: weekKey_def)
    from grp k have g: "\<exists>js. (weekKey, js) \<in> set (weeklyGroups txs) \<and> j \<in> set js"
      by simp
    from out k have w: "weekKey \<in> tm_key ` set (weekly (analyzeTimeData localeCompare txs))"
      by simp
    have cal: "(t - start) div msPerDay = DayWithinYear (LocalTime LocalTZA t) \<and>
        WeekDay (LocalTime LocalTZA start) = WeekDay (TimeFromYear year)"
      if a: "\<not> (0 \<le> year \<and> year \<le> 99)"
        and b: "LocalTZA t True = LocalTZA (TimeFromYear year) False"
        and c: "LocalTZA start True = LocalTZA (TimeFromYear year) False"
    proof
      show "(t - start) div msPerDay = DayWithinYear (LocalTime LocalTZA t)"
        using Some a b unfolding year_def by (rule calendar_day_of_year)
      show "WeekDay (LocalTime LocalTZA start) = WeekDay (TimeFromYear year)"
        using jan1_local_midnight [OF Some a c] by simp
    qed
    from k g w cal show ?thesis
      unfolding Some option.case Let_def weekKey_def [symmetric] by blast
  qed
  from t body show "(\<exists>t. getTime (j_date j) = Some t \<and>
        (let year = YearFromTime (LocalTime LocalTZA t)
         in case new_Date_Jan1 LocalTZA year of
              None \<Rightarrow> getISOWeek (j_date j) = string_of_int year @ ''-WNaN''
            | Some start \<Rightarrow>
                (let days = (t - start) div msPerDay;
                     weekKey = claimed_week_key year days (WeekDay (LocalTime LocalTZA start))
                 in getISOWeek (j_date j) = weekKey \<and>
                    (\<exists>js. (weekKey, js) \<in> set (weeklyGroups txs) \<and> j \<in> set js) \<and>
                    weekKey \<in> tm_key ` set (weekly (analyzeTimeData localeCompare txs)) \<and>
                    (\<not> (0 \<le> year \<and> year \<le> 99) \<and>
                     LocalTZA t True = LocalTZA (TimeFromYear year) False \<and>
                     LocalTZA start True = LocalTZA (TimeFromYear year) False \<longrightarrow>
                       days = DayWithinYear (LocalTime LocalTZA t) \<and>
                       WeekDay (LocalTime LocalTZA start) = WeekDay (TimeFromYear year)))))"
    unfolding year_def Let_def by blast
qed

theorem C8_witness:
  "list_all (\<lambda>j. date_in_zone utc (j_date j)) (time_journeyArray dated_txs) \<and>
   map (\<lambda>j. getISOWeek (j_date j)) (time_journeyArray dated_txs) = [''2024-W01'', ''2024-W11''] \<and>
   map (\<lambda>j. map_option (\<lambda>t. DayWithinYear (LocalTime utc t)) (getTime (j_date j)))
     (time_journeyArray dated_txs) = [Some 2, Some 74] \<and>
   list_all (\<lambda>j.
     \<exists>t. getTime (j_date j) = Some t \<and>
       YearFromTime (LocalTime utc t) = 2024 \<and>
       getISOWeek (j_date j) =
         claimed_week_key 2024 (DayWithinYear (LocalTime utc t)) (WeekDay (TimeFromYear 2024)) \<and>
       (\<exists>js. (getISOWeek (j_date j), js) \<in> set (weeklyGroups dated_txs) \<and> j \<in> set js) \<and>
       getISOWeek (j_date j) \<in> tm_key ` set (weekly (analyzeTimeData (\<lambda>a b. 0) dated_txs)))
     (time_journeyArray dated_txs)"
proof -
  have a: "list_all (\<lambda>j. date_in_zone utc (j_date j)) (time_journeyArray dated_txs)"
    by code_simp
  have b: "map (\<lambda>j. getISOWeek (j_date j)) (time_journeyArray dated_txs) =
      [''2024-W01'', ''2024-W11'']"
    by code_simp
  have c: "map (\<lambda>j. map_option (\<lambda>t. DayWithinYear (LocalTime utc t)) (getTime (j_date j)))
      (time_journeyArray dated_txs) = [Some 2, Some 74]"
    by code_simp
  have years: "list_all (\<lambda>j. case getTime (j_date j) of
        None \<Rightarrow> False | Some t \<Rightarrow> YearFromTime (LocalTime utc t) = 2024)
      (time_journeyArray dated_txs)"
    by code_simp
  have jan1: "new_Date_Jan1 utc 2024 = Some 1704067200000"
    by code_simp
  have d: "list_all (\<lambda>j.
     \<exists>t. getTime (j_date j) = Some t \<and>
       YearFromTime (LocalTime utc t) = 2024 \<and>
       getISOWeek (j_date j) =
         claimed_week_key 2024 (DayWithinYear (LocalTime utc t)) (WeekDay (TimeFromYear 2024)) \<and>
       (\<exists>js. (getISOWeek (j_date j), js) \<in> set (weeklyGroups dated_txs) \<and> j \<in> set js) \<and>
       getISOWeek (j_date j) \<in> tm_key ` set (weekly (analyzeTimeData (\<lambda>a b. 0) dated_txs)))
     (time_journeyArray dated_txs)"
    unfolding list_all_iff
  proof
    fix j assume j: "j \<in> set (time_journeyArray dated_txs)"
    with a have z: "date_in_zone utc (j_date j)"
      by (simp add: list_all_iff)
    from C8_weekly_bucket_key [of dated_txs utc "\<lambda>a b. 0"] j z
    obtain t where t: "getTime (j_date j) = Some t"
      and body: "let year = YearFromTime (LocalTime utc t)
         in case new_Date_Jan1 utc year of
              None \<Rightarrow> getISOWeek (j_date j) = string_of_int year @ ''-WNaN''
            | Some start \<Rightarrow>
                (let days = (t - start) div msPerDay;
                     weekKey = claimed_week_key year days (WeekDay (LocalTime utc start))
                 in getISOWeek (j_date j) = weekKey \<and>
                    (\<exists>js. (weekKey, js) \<in> set (weeklyGroups dated_txs) \<and> j \<in> set js) \<and>
                    weekKey \<in> tm_key ` set (weekly (analyzeTimeData (\<lambda>a b. 0) dated_txs)) \<and>
                    (\<not> (0 \<le> year \<and> year \<le> 99) \<and>
                     utc t True = utc (TimeFromYear year) False \<and>
                     utc start True = utc (TimeFromYear year) False \<longrightarrow>
                       days = DayWithinYear (LocalTime utc t) \<and>
                       WeekDay (LocalTime utc start) = WeekDay (TimeFromYear year)))"
      by blast
    from years j t have y: "YearFromTime (LocalTime utc t) = 2024"
      by (auto simp: list_all_iff)
    define weekKey where "weekKey =
        claimed_week_key 2024 ((t - 1704067200000) div msPerDay) (WeekDay (LocalTime utc 1704067200000))"
    from body have k: "getISOWeek (j_date j) = weekKey"
      and g: "\<exists>js. (weekKey, js) \<in> set (weeklyGroups dated_txs) \<and> j \<in> set js"
      and w: "weekKey \<in> tm_key ` set (weekly (analyzeTimeData (\<lambda>a b. 0) dated_txs))"
      and imp: "\<not> (0 \<le> (2024::int) \<and> (2024::int) \<le> 99) \<and>
          utc t True = utc (TimeFromYear 2024) False \<and>
          utc 1704067200000 True = utc (TimeFromYear 2024) False \<longrightarrow>
            (t - 1704067200000) div msPerDay = DayWithinYear (LocalTime utc t) \<and>
            WeekDay (LocalTime utc 1704067200000) = WeekDay (TimeFromYear 2024)"
      unfolding Let_def y jan1 option.case weekKey_def [symmetric] by blast+
    have "\<not> (0 \<le> (2024::int) \<and> (2024::int) \<le> 99) \<and>
        utc t True = utc (TimeFromYear 2024) False \<and>
        utc 1704067200000 True = utc (TimeFromYear 2024) False"
      by (simp add: utc_def)
    with imp have cal: "(t - 1704067200000) div msPerDay = DayWithinYear (LocalTime utc t)"
        "WeekDay (LocalTime utc 1704067200000) = WeekDay (TimeFromYear 2024)"
      by blast+
    have k': "getISOWeek (j_date j) =
        claimed_week_key 2024 (DayWithinYear (LocalTime utc t)) (WeekDay (TimeFromYear 2024))"
      unfolding k weekKey_def cal by (rule refl)
    from g w have g': "\<exists>js. (getISOWeek (j_date j), js) \<in> set (weeklyGroups dated_txs) \<and> j \<in> set js"
      and w': "getISOWeek (j_date j) \<in> tm_key ` set (weekly (analyzeTimeData (\<lambda>a b. 0) dated_txs))"
      unfolding k by blast+
    from t y k' g' w' show "\<exists>t. getTime (j_date j) = Some t \<and>
       YearFromTime (LocalTime utc t) = 2024 \<and>
       getISOWeek (j_date j) =
         claimed_week_key 2024 (DayWithinYear (LocalTime utc t)) (WeekDay (TimeFromYear 2024)) \<and>
       (\<exists>js. (getISOWeek (j_date j), js) \<in> set (weeklyGroups dated_txs) \<and> j \<in> set js) \<and>
       getISOWeek (j_date j) \<in> tm_key ` set (weekly (analyzeTimeData (\<lambda>a b. 0) dated_txs))"
      by blast
  qed
  show ?thesis by (rule conjI [OF a conjI [OF b conjI [OF c d]]])
qed

theorem C8_counterexample:
  "date_in_zone utc jan6_2024 \<and>
   getTime jan6_2024 = Some 1704499200000 \<and>
   YearFromTime (LocalTime utc 1704499200000) = 2024 \<and>
   DayWithinYear (LocalTime utc 1704499200000) = 5 \<and>
   WeekDay (TimeFromYear 2024) = 1 \<and>
   map tm_key (weekly (analyzeTimeData (\<lambda>a b. 0) (dated_tx jan6_2024))) = [''2024-W01''] \<and>
   claimed_week_key 2024 (5 + 1) 1 = ''2024-W02'' \<and>
   date_in_zone new_york_2024 jul7_2024_new_york \<and>
   getTime jul7_2024_new_york = Some 1720326600000 \<and>
   YearFromTime (LocalTime new_york_2024 1720326600000) = 2024 \<and>
   DayWithinYear (LocalTime new_york_2024 1720326600000) = 188 \<and>
   map tm_key (weekly (analyzeTimeData (\<lambda>a b. 0) (dated_tx jul7_2024_new_york))) = [''2024-W27''] \<and>
   claimed_week_key 2024 188 1 = ''2024-W28'' \<and>
   claimed_week_key 2024 (188 + 1) 1 = ''2024-W28''"
proof -
  have 1: "date_in_zone utc jan6_2024" by code_simp
  have 2: "getTime jan6_2024 = Some 1704499200000" by code_simp
  have 3: "YearFromTime (LocalTime utc 1704499200000) = 2024" by code_simp
  have 4: "DayWithinYear (LocalTime utc 1704499200000) = 5" by code_simp
  have 5: "WeekDay (TimeFromYear 2024) = 1" by code_simp
  have 6: "map tm_key (weekly (analyzeTimeData (\<lambda>a b. 0) (dated_tx jan6_2024))) = [''2024-W01'']"
    by code_simp
  have 7: "claimed_week_key 2024 (5 + 1) 1 = ''2024-W02''" by code_simp
  have 8: "date_in_zone new_york_2024 jul7_2024_new_york" by code_simp
  have 9: "getTime jul7_2024_new_york = Some 1720326600000" by code_simp
  have 10: "YearFromTime (LocalTime new_york_2024 1720326600000) = 2024" by code_simp
  have 11: "DayWithinYear (LocalTime new_york_2024 1720326600000) = 188" by code_simp
  have 12: "map tm_key (weekly (analyzeTimeData (\<lambda>a b. 0) (dated_tx jul7_2024_new_york))) =
      [''2024-W27'']"
    by code_simp
  have 13: "claimed_week_key 2024 188 1 = ''2024-W28''" by code_simp
  have 14: "claimed_week_key 2024 (188 + 1) 1 = ''2024-W28''" by code_simp
  show ?thesis
    by (rule conjI [OF 1 conjI [OF 2 conjI [OF 3 conjI [OF 4 conjI [OF 5 conjI [OF 6 conjI [OF 7
      conjI [OF 8 conjI [OF 9 conjI [OF 10 conjI [OF 11 conjI [OF 12 conjI [OF 13 14]]]]]]]]]]]]])
qed

subsection \<open>Ratios\<close>

lemma percentage_ok: "a \<le> d \<Longrightarrow> ratio_ok (percentage a d) d"
proof (cases "d = 0")
  case True
  then show ?thesis by (simp add: ratio_ok_def percentage_def)
next
  case False
  assume "a \<le> d"
  with False have "(of_nat a :: rat) / of_nat d \<le> 1" by simp
  then have "(of_nat a :: rat) / of_nat d * 100 \<le> 100"
    using mult_right_mono [of "(of_nat a :: rat) / of_nat d" 1 100] by simp
  moreover have "0 \<le> (of_nat a :: rat) / of_nat d * 100" by simp
  ultimately show ?thesis
    using False by (simp add: ratio_ok_def percentage_def js_div_def times100_def)
qed

lemma floor_half: "\<lfloor>(1::rat) / 2\<rfloor> = 0"
  by (rule floor_unique) simp_all

lemma toFixed2_zero: "toFixed2 (Num 0) = Num 0"
  by (simp add: toFixed2_def floor_half)

lemma toFixed2_ok: "ratio_ok x d \<Longrightarrow> ratio_ok (toFixed2 x) d"
proof -
  assume ok: "ratio_ok x d"
  then obtain q where x: "x = Num q" and q: "0 \<le> q" "q \<le> 100"
    by (cases x) (simp_all add: ratio_ok_def)
  have "\<lfloor>q * 100 + 1 / 2\<rfloor> \<le> 10000"
  proof -
    from q have "q * 100 + 1 / 2 < 10001" by simp
    then have "\<lfloor>q * 100 + 1 / 2\<rfloor> < 10001" by (simp add: floor_less_iff)
    then show ?thesis by simp
  qed
  then have hi: "(of_int \<lfloor>q * 100 + 1 / 2\<rfloor> :: rat) / 100 \<le> 100" by simp
  have "0 \<le> \<lfloor>q * 100 + 1 / 2\<rfloor>" using q by simp
  then have lo: "0 \<le> (of_int \<lfloor>q * 100 + 1 / 2\<rfloor> :: rat) / 100" by simp
  have z: "d = 0 \<longrightarrow> toFixed2 x = Num 0"
    using ok by (auto simp: ratio_ok_def toFixed2_zero)
  from hi lo z show ?thesis by (simp add: ratio_ok_def toFixed2_def x)
qed

lemma percentage_sum_ok: "ratio_ok (percentage a (a + b)) (a + b)"
  by (rule percentage_ok) simp

lemma fixed_ratio_ok:
  "ratio_ok (if 0 < a + b then toFixed2 (times100 (js_div a (a + b))) else Num 0) (a + b)"
proof -
  have "(if 0 < a + b then toFixed2 (times100 (js_div a (a + b))) else Num 0) =
      toFixed2 (percentage a (a + b))"
    by (simp only: percentage_def toFixed2_zero if_distrib [of toFixed2])
  then show ?thesis by (simp only: toFixed2_ok percentage_sum_ok)
qed

lemma fixed_ratio_ok':
  "ratio_ok (if 0 < a + b then toFixed2 (times100 (js_div b (a + b))) else Num 0) (a + b)"
  using fixed_ratio_ok [of b a] by (simp only: add.commute [of b a])

lemma set_set_entry: "(k', v') \<in> set (set_entry k v r) \<Longrightarrow> (k', v') \<in> set r \<or> v' = v"
  by (auto simp: set_entry_def set_update_entry split: if_splits)

lemma set_foldl_set_entry:
  "(k, v) \<in> set (foldl (\<lambda>pb P. set_entry P (f P) pb) acc ps) \<Longrightarrow>
     (k, v) \<in> set acc \<or> (\<exists>P\<in>set ps. v = f P)"
proof (induction ps arbitrary: acc)
  case Nil
  then show ?case by simp
next
  case (Cons P ps)
  from Cons.prems have "(k, v) \<in> set (foldl (\<lambda>pb P. set_entry P (f P) pb) (set_entry P (f P) acc) ps)"
    by simp
  from Cons.IH [OF this] show ?case
    using set_set_entry [of k v P "f P" acc] by auto
qed

subsection \<open>Ratios of improvedAnalyzeData\<close>

lemma improved_stats_ratios:
  assumes "(P, s) \<in> set (improved_pspStats js)"
  shows "ratio_ok (ps_individualApprovalRate s) (ps_totalAttempts s) \<and>
     ratio_ok (ps_trueApprovalRate s) (ps_uniqueApproved s + ps_uniqueDeclined s)"
proof -
  from assms have s: "s = snd (finish_stats js (P, psp_counts js P))"
    by (rule improved_pspStats_entry)
  have "ps_approvedAttempts (psp_counts js P) \<le> ps_totalAttempts (psp_counts js P)"
    unfolding psp_counts_fields by (rule length_filter_mono) simp
  then have "ratio_ok (percentage (ps_approvedAttempts (psp_counts js P))
      (ps_totalAttempts (psp_counts js P))) (ps_totalAttempts (psp_counts js P))"
    by (rule percentage_ok)
  then show ?thesis
    unfolding s finish_stats_rates finish_stats_counts
    using percentage_sum_ok by blast
qed

lemma country_psp_entry_ok:
  "ratio_ok (pb_successRate (country_psp_entry js P)) (pb_totalTransactions (country_psp_entry js P))"
  by (simp add: country_psp_entry_def Let_def percentage_sum_ok)

lemma country_entry_ok:
  "ratio_ok (cb_successRate (snd (country_entry e))) (cb_totalProcessedTransactions (snd (country_entry e))) \<and>
   (\<forall>(P, pb)\<in>set (cb_pspBreakdown (snd (country_entry e))).
      ratio_ok (pb_successRate pb) (pb_totalTransactions pb))"
proof (cases e)
  case (Pair c js)
  have 1: "ratio_ok (cb_successRate (snd (country_entry e))) (cb_totalProcessedTransactions (snd (country_entry e)))"
    by (simp add: Pair country_entry_def Let_def percentage_sum_ok)
  have 2: "\<forall>(P, pb)\<in>set (cb_pspBreakdown (snd (country_entry e))).
      ratio_ok (pb_successRate pb) (pb_totalTransactions pb)"
  proof (intro ballI, clarify)
    fix P pb assume "(P, pb) \<in> set (cb_pspBreakdown (snd (country_entry e)))"
    then have "(P, pb) \<in> set (foldl (\<lambda>pb pspName. set_entry pspName (country_psp_entry js pspName) pb) []
        (foldl (\<lambda>s j. foldl set_add s (j_pspsInvolved j)) [] js))"
      by (simp add: Pair country_entry_def Let_def)
    from set_foldl_set_entry [OF this] obtain P' where "pb = country_psp_entry js P'" by auto
    then show "ratio_ok (pb_successRate pb) (pb_totalTransactions pb)"
      by (simp add: country_psp_entry_ok)
  qed
  from 1 2 show ?thesis by blast
qed

lemma improved_ratios:
  "(\<forall>(P, s)\<in>set (pspStats (pspLevel (improvedAnalyzeData now txs))).
      ratio_ok (ps_individualApprovalRate s) (ps_totalAttempts s) \<and>
      ratio_ok (ps_trueApprovalRate s) (ps_uniqueApproved s + ps_uniqueDeclined s)) \<and>
   ratio_ok (weightedSuccessRate (pspLevel (improvedAnalyzeData now txs)))
     (totalProcessedTransactions (pspLevel (improvedAnalyzeData now txs))) \<and>
   ratio_ok (weightedSuccessRate (transactionLevel (improvedAnalyzeData now txs)))
     (totalProcessedTransactions (transactionLevel (improvedAnalyzeData now txs))) \<and>
   (\<forall>(c, b)\<in>set (countryBreakdown (transactionLevel (improvedAnalyzeData now txs))).
      ratio_ok (cb_successRate b) (cb_totalProcessedTransactions b) \<and>
      (\<forall>(P, pb)\<in>set (cb_pspBreakdown b). ratio_ok (pb_successRate pb) (pb_totalTransactions pb)))"
proof (intro conjI)
  show "\<forall>(P, s)\<in>set (pspStats (pspLevel (improvedAnalyzeData now txs))).
      ratio_ok (ps_individualApprovalRate s) (ps_totalAttempts s) \<and>
      ratio_ok (ps_trueApprovalRate s) (ps_uniqueApproved s + ps_uniqueDeclined s)"
    unfolding pspStats_improved using improved_stats_ratios by blast
  show "ratio_ok (weightedSuccessRate (pspLevel (improvedAnalyzeData now txs)))
     (totalProcessedTransactions (pspLevel (improvedAnalyzeData now txs)))"
    by (simp add: improvedAnalyzeData_def Let_def percentage_sum_ok)
  show "ratio_ok (weightedSuccessRate (transactionLevel (improvedAnalyzeData now txs)))
     (totalProcessedTransactions (transactionLevel (improvedAnalyzeData now txs)))"
    by (simp add: improvedAnalyzeData_def Let_def percentage_sum_ok)
  show "\<forall>(c, b)\<in>set (countryBreakdown (transactionLevel (improvedAnalyzeData now txs))).
      ratio_ok (cb_successRate b) (cb_totalProcessedTransactions b) \<and>
      (\<forall>(P, pb)\<in>set (cb_pspBreakdown b). ratio_ok (pb_successRate pb) (pb_totalTransactions pb))"
  proof (intro ballI, clarify)
    fix c b assume "(c, b) \<in> set (countryBreakdown (transactionLevel (improvedAnalyzeData now txs)))"
    then have "(c, b) \<in> country_entry ` set (group_by j_country (map snd (improved_journeys now txs)))"
      by (simp add: improvedAnalyzeData_def Let_def)
    then obtain e where "(c, b) = country_entry e" by blast
    then have "b = snd (country_entry e)" by (metis snd_conv)
    then show "ratio_ok (cb_successRate b) (cb_totalProcessedTransactions b) \<and>
      (\<forall>(P, pb)\<in>set (cb_pspBreakdown b). ratio_ok (pb_successRate pb) (pb_totalTransactions pb))"
      using country_entry_ok [of e] by simp
  qed
qed

lemma recalc_ratio:
  "ratio_ok (weightedSuccessRate (recalculateWithPSPExclusions (improvedAnalyzeData now txs) E))
     (totalProcessedTransactions (recalculateWithPSPExclusions (improvedAnalyzeData now txs) E))"
proof (cases "E = []")
  case True
  then show ?thesis
    using improved_ratios [of now txs] by (simp add: recalculateWithPSPExclusions_def)
next
  case False
  then show ?thesis
    by (simp add: recalculateWithPSPExclusions_def Let_def percentage_sum_ok)
qed

subsection \<open>Ratios of analyzeData\<close>

lemma list_all_update_entry:
  "list_all (\<lambda>e. Q (snd e)) r \<Longrightarrow> (\<And>v. Q v \<Longrightarrow> Q (f v)) \<Longrightarrow>
     list_all (\<lambda>e. Q (snd e)) (update_entry k f r)"
  by (induction r) (auto simp: update_entry_def)

lemma list_all_init_own_entry:
  "list_all (\<lambda>e. Q (snd e)) r \<Longrightarrow> Q v \<Longrightarrow> list_all (\<lambda>e. Q (snd e)) (init_own_entry k v r)"
  by (simp add: init_own_entry_def)

lemma list_all_init_entry:
  "list_all (\<lambda>e. Q (snd e)) r \<Longrightarrow> Q v \<Longrightarrow> list_all (\<lambda>e. Q (snd e)) (init_entry k v r)"
  by (simp add: init_entry_def)

lemma zero_ratios_inc_total: "zero_ratios s \<Longrightarrow> zero_ratios (inc_total s)"
  by (simp add: zero_ratios_def inc_total_def)

lemma zero_ratios_inc_outcome: "zero_ratios s \<Longrightarrow> zero_ratios (inc_outcome b s)"
  by (simp add: zero_ratios_def inc_outcome_def)

lemma zero_ratios_zero: "zero_ratios zero_analysis"
  by (simp add: zero_ratios_def zero_analysis_def)

lemma zero_ratios_country_zero: "zero_ratios_country zero_country"
  by (simp add: zero_ratios_country_def zero_ratios_def zero_country_def)

lemma zero_ratios_country_inc_total: "zero_ratios_country s \<Longrightarrow> zero_ratios_country (inc_total s)"
  by (simp add: zero_ratios_country_def zero_ratios_def inc_total_def)

lemma zero_ratios_country_inc_outcome:
  "zero_ratios_country s \<Longrightarrow> zero_ratios_country (inc_outcome b s)"
  by (simp add: zero_ratios_country_def zero_ratios_def inc_outcome_def)

lemma count_in_stats:
  "list_all (\<lambda>e. zero_ratios (snd e)) b \<Longrightarrow>
     list_all (\<lambda>e. zero_ratios (snd e))
       (update_entry P (inc_outcome ok) (update_entry P inc_total (init_entry P zero_analysis b)))"
  by (intro list_all_update_entry list_all_init_entry zero_ratios_zero
      zero_ratios_inc_total zero_ratios_inc_outcome)

lemma zero_ratios_country_in_breakdown:
  "zero_ratios_country cs \<Longrightarrow>
     zero_ratios_country
       (in_breakdown (\<lambda>b. update_entry P (inc_outcome ok)
          (update_entry P inc_total (init_entry P zero_analysis b))) cs)"
  using count_in_stats [of "st_pspBreakdown cs" P ok]
  by (simp add: zero_ratios_country_def in_breakdown_def zero_ratios_def)

lemma analyze_psp_inv:
  assumes "list_all (\<lambda>e. zero_ratios (snd e)) (fst acc)"
    and "list_all (\<lambda>e. zero_ratios_country (snd e)) (snd acc)"
  shows "list_all (\<lambda>e. zero_ratios (snd e)) (fst (analyze_psp j acc P)) \<and>
     list_all (\<lambda>e. zero_ratios_country (snd e)) (snd (analyze_psp j acc P))"
proof (cases acc)
  case (Pair pa ca)
  with assms have pa: "list_all (\<lambda>e. zero_ratios (snd e)) pa"
    and ca: "list_all (\<lambda>e. zero_ratios_country (snd e)) ca"
    by simp_all
  have 1: "list_all (\<lambda>e. zero_ratios (snd e))
      (update_entry P (inc_outcome (pspApprovedThisJourney j P))
        (update_entry P inc_total (init_entry P zero_analysis pa)))"
    using pa by (rule count_in_stats)
  have 2: "list_all (\<lambda>e. zero_ratios_country (snd e))
      (update_entry (j_country j)
        (in_breakdown (\<lambda>b. update_entry P (inc_outcome (pspApprovedThisJourney j P))
           (update_entry P inc_total (init_entry P zero_analysis b)))) ca)"
    using ca by (rule list_all_update_entry) (rule zero_ratios_country_in_breakdown)
  from 1 2 show ?thesis by (simp add: Pair analyze_psp_def Let_def)
qed

lemma foldl_analyze_psp_inv:
  "list_all (\<lambda>e. zero_ratios (snd e)) (fst acc) \<Longrightarrow>
   list_all (\<lambda>e. zero_ratios_country (snd e)) (snd acc) \<Longrightarrow>
     list_all (\<lambda>e. zero_ratios (snd e)) (fst (foldl (analyze_psp j) acc ps)) \<and>
     list_all (\<lambda>e. zero_ratios_country (snd e)) (snd (foldl (analyze_psp j) acc ps))"
proof (induction ps arbitrary: acc)
  case Nil
  then show ?case by simp
next
  case (Cons P ps)
  from analyze_psp_inv [OF Cons.prems, of j P] Cons.IH [of "analyze_psp j acc P"]
  show ?case by simp
qed

lemma analyze_journey_inv:
  assumes "list_all (\<lambda>e. zero_ratios (snd e)) (fst acc)"
    and "list_all (\<lambda>e. zero_ratios_country (snd e)) (snd acc)"
  shows "list_all (\<lambda>e. zero_ratios (snd e)) (fst (analyze_journey acc j)) \<and>
     list_all (\<lambda>e. zero_ratios_country (snd e)) (snd (analyze_journey acc j))"
proof (cases acc)
  case (Pair pa ca)
  with assms have pa: "list_all (\<lambda>e. zero_ratios (snd e)) pa"
    and ca: "list_all (\<lambda>e. zero_ratios_country (snd e)) ca"
    by simp_all
  have ca': "list_all (\<lambda>e. zero_ratios_country (snd e))
      (update_entry (j_country j) (inc_outcome (j_finalStatus j = Success))
        (update_entry (j_country j) inc_total (init_own_entry (j_country j) zero_country ca)))"
    using ca
    by (intro list_all_update_entry list_all_init_own_entry zero_ratios_country_zero
        zero_ratios_country_inc_total zero_ratios_country_inc_outcome)
  show ?thesis
    unfolding Pair analyze_journey_def Let_def prod.case
    by (rule foldl_analyze_psp_inv) (simp_all add: pa ca')
qed

lemma foldl_analyze_journey_inv:
  "list_all (\<lambda>e. zero_ratios (snd e)) (fst acc) \<Longrightarrow>
   list_all (\<lambda>e. zero_ratios_country (snd e)) (snd acc) \<Longrightarrow>
     list_all (\<lambda>e. zero_ratios (snd e)) (fst (foldl analyze_journey acc js)) \<and>
     list_all (\<lambda>e. zero_ratios_country (snd e)) (snd (foldl analyze_journey acc js))"
proof (induction js arbitrary: acc)
  case Nil
  then show ?case by simp
next
  case (Cons j js)
  from analyze_journey_inv [OF Cons.prems, of j] Cons.IH [of "analyze_journey acc j"]
  show ?case by simp
qed

lemma set_ratios_ok:
  assumes "zero_ratios v"
  shows "ratio_ok (st_approvalRatio (set_ratios v)) (st_approved (set_ratios v) + st_declined (set_ratios v)) \<and>
     ratio_ok (st_declineRatio (set_ratios v)) (st_approved (set_ratios v) + st_declined (set_ratios v))"
proof -
  have c: "st_approved (set_ratios v) = st_approved v" "st_declined (set_ratios v) = st_declined v"
    by (simp_all add: set_ratios_def Let_def)
  have a: "st_approvalRatio (set_ratios v) =
      (if 0 < st_approved v + st_declined v
       then toFixed2 (times100 (js_div (st_approved v) (st_approved v + st_declined v))) else Num 0)"
    using assms by (simp add: set_ratios_def Let_def zero_ratios_def)
  have d: "st_declineRatio (set_ratios v) =
      (if 0 < st_approved v + st_declined v
       then toFixed2 (times100 (js_div (st_declined v) (st_approved v + st_declined v))) else Num 0)"
    using assms by (simp add: set_ratios_def Let_def zero_ratios_def)
  show ?thesis
    unfolding c a d using fixed_ratio_ok fixed_ratio_ok' by blast
qed

lemma country_ratios_ok:
  assumes "zero_ratios_country cs"
  shows "ratio_ok (st_approvalRatio (country_ratios cs))
       (st_approved (country_ratios cs) + st_declined (country_ratios cs)) \<and>
     ratio_ok (st_declineRatio (country_ratios cs))
       (st_approved (country_ratios cs) + st_declined (country_ratios cs)) \<and>
     (\<forall>(P, s)\<in>set (st_pspBreakdown (country_ratios cs)).
        ratio_ok (st_approvalRatio s) (st_approved s + st_declined s) \<and>
        ratio_ok (st_declineRatio s) (st_approved s + st_declined s))"
proof -
  from assms have z: "zero_ratios cs"
    and zb: "\<forall>e\<in>set (st_pspBreakdown cs). zero_ratios (snd e)"
    by (simp_all add: zero_ratios_country_def list_all_iff)
  have f: "st_approvalRatio (country_ratios cs) = st_approvalRatio (set_ratios cs)"
    "st_declineRatio (country_ratios cs) = st_declineRatio (set_ratios cs)"
    "st_approved (country_ratios cs) = st_approved (set_ratios cs)"
    "st_declined (country_ratios cs) = st_declined (set_ratios cs)"
    by (simp_all add: country_ratios_def in_breakdown_def)
  have b: "st_pspBreakdown (country_ratios cs) = map (\<lambda>(k, v). (k, set_ratios v)) (st_pspBreakdown cs)"
    by (simp add: country_ratios_def in_breakdown_def set_ratios_def Let_def)
  have 2: "\<forall>(P, s)\<in>set (st_pspBreakdown (country_ratios cs)).
        ratio_ok (st_approvalRatio s) (st_approved s + st_declined s) \<and>
        ratio_ok (st_declineRatio s) (st_approved s + st_declined s)"
  proof (intro ballI, clarify)
    fix P s assume "(P, s) \<in> set (st_pspBreakdown (country_ratios cs))"
    then obtain v where "(P, v) \<in> set (st_pspBreakdown cs)" and s: "s = set_ratios v"
      unfolding b by auto
    with zb have "zero_ratios v" by force
    then show "ratio_ok (st_approvalRatio s) (st_approved s + st_declined s) \<and>
        ratio_ok (st_declineRatio s) (st_approved s + st_declined s)"
      unfolding s by (rule set_ratios_ok)
  qed
  from set_ratios_ok [OF z] 2 show ?thesis unfolding f by blast
qed

lemma analyze_ratios:
  "(\<forall>(P, s)\<in>set (pspAnalysis (analyzeData localeCompare txs)).
      ratio_ok (st_approvalRatio s) (st_approved s + st_declined s) \<and>
      ratio_ok (st_declineRatio s) (st_approved s + st_declined s)) \<and>
   (\<forall>(c, cs)\<in>set (countryAnalysis (analyzeData localeCompare txs)).
      ratio_ok (st_approvalRatio cs) (st_approved cs + st_declined cs) \<and>
      ratio_ok (st_declineRatio cs) (st_approved cs + st_declined cs) \<and>
      (\<forall>(P, s)\<in>set (st_pspBreakdown cs).
         ratio_ok (st_approvalRatio s) (st_approved s + st_declined s) \<and>
         ratio_ok (st_declineRatio s) (st_approved s + st_declined s))) \<and>
   ratio_ok (overallApprovalRate (analyzeData localeCompare txs))
     (sum_list (map (\<lambda>(P, s). st_approved s) (pspAnalysis (analyzeData localeCompare txs))) +
      sum_list (map (\<lambda>(P, s). st_declined s) (pspAnalysis (analyzeData localeCompare txs))))"
proof -
  define acc where "acc = foldl analyze_journey ([], []) (map snd (analyze_journeys txs))"
  have inv: "list_all (\<lambda>e. zero_ratios (snd e)) (fst acc)"
    "list_all (\<lambda>e. zero_ratios_country (snd e)) (snd acc)"
    using foldl_analyze_journey_inv [of "([], [])" "map snd (analyze_journeys txs)"]
    by (simp_all add: acc_def)
  have pa: "pspAnalysis (analyzeData localeCompare txs) = map (\<lambda>(k, v). (k, set_ratios v)) (fst acc)"
    by (simp add: analyzeData_def Let_def acc_def)
  have ca: "countryAnalysis (analyzeData localeCompare txs) =
      map (\<lambda>(k, v). (k, country_ratios v)) (snd acc)"
    by (simp add: analyzeData_def Let_def acc_def)
  have 1: "\<forall>(P, s)\<in>set (pspAnalysis (analyzeData localeCompare txs)).
      ratio_ok (st_approvalRatio s) (st_approved s + st_declined s) \<and>
      ratio_ok (st_declineRatio s) (st_approved s + st_declined s)"
  proof (intro ballI, clarify)
    fix P s assume "(P, s) \<in> set (pspAnalysis (analyzeData localeCompare txs))"
    then obtain v where "(P, v) \<in> set (fst acc)" and s: "s = set_ratios v"
      unfolding pa by auto
    with inv(1) have "zero_ratios v" by (force simp: list_all_iff)
    then show "ratio_ok (st_approvalRatio s) (st_approved s + st_declined s) \<and>
      ratio_ok (st_declineRatio s) (st_approved s + st_declined s)"
      unfolding s by (rule set_ratios_ok)
  qed
  have 2: "\<forall>(c, cs)\<in>set (countryAnalysis (analyzeData localeCompare txs)).
      ratio_ok (st_approvalRatio cs) (st_approved cs + st_declined cs) \<and>
      ratio_ok (st_declineRatio cs) (st_approved cs + st_declined cs) \<and>
      (\<forall>(P, s)\<in>set (st_pspBreakdown cs).
         ratio_ok (st_approvalRatio s) (st_approved s + st_declined s) \<and>
         ratio_ok (st_declineRatio s) (st_approved s + st_declined s))"
  proof (intro ballI, clarify)
    fix c cs assume "(c, cs) \<in> set (countryAnalysis (analyzeData localeCompare txs))"
    then obtain v where "(c, v) \<in> set (snd acc)" and cs: "cs = country_ratios v"
      unfolding ca by auto
    with inv(2) have "zero_ratios_country v" by (force simp: list_all_iff)
    then show "ratio_ok (st_approvalRatio cs) (st_approved cs + st_declined cs) \<and>
      ratio_ok (st_declineRatio cs) (st_approved cs + st_declined cs) \<and>
      (\<forall>(P, s)\<in>set (st_pspBreakdown cs).
         ratio_ok (st_approvalRatio s) (st_approved s + st_declined s) \<and>
         ratio_ok (st_declineRatio s) (st_approved s + st_declined s))"
      unfolding cs by (rule country_ratios_ok)
  qed
  have 3: "ratio_ok (overallApprovalRate (analyzeData localeCompare txs))
     (sum_list (map (\<lambda>(P, s). st_approved s) (pspAnalysis (analyzeData localeCompare txs))) +
      sum_list (map (\<lambda>(P, s). st_declined s) (pspAnalysis (analyzeData localeCompare txs))))"
  proof -
    have o: "overallApprovalRate (analyzeData localeCompare txs) =
        (if 0 < sum_list (map (\<lambda>e. st_approved (snd e)) (pspAnalysis (analyzeData localeCompare txs))) +
             sum_list (map (\<lambda>e. st_declined (snd e)) (pspAnalysis (analyzeData localeCompare txs)))
         then toFixed2 (times100 (js_div
             (sum_list (map (\<lambda>e. st_approved (snd e)) (pspAnalysis (analyzeData localeCompare txs))))
             (sum_list (map (\<lambda>e. st_approved (snd e)) (pspAnalysis (analyzeData localeCompare txs))) +
              sum_list (map (\<lambda>e. st_declined (snd e)) (pspAnalysis (analyzeData localeCompare txs))))))
         else Num 0)"
      by (simp only: analyzeData_def Let_def AnalysisResults.select_convs)
    have e: "(\<lambda>(P, s). st_approved s) = (\<lambda>e :: string \<times> AnalysisStats. st_approved (snd e))"
      "(\<lambda>(P, s). st_declined s) = (\<lambda>e :: string \<times> AnalysisStats. st_declined (snd e))"
      by (simp_all add: case_prod_unfold)
    show ?thesis unfolding o e by (rule fixed_ratio_ok)
  qed
  from 1 2 3 show ?thesis by (intro conjI)
qed

subsection \<open>Ratios of analyzeTimeData\<close>

lemma calculateUniqueMetrics_ok:
  "ratio_ok (tm_approvalRate (calculateUniqueMetrics js)) (tm_total (calculateUniqueMetrics js))"
  by (simp add: calculateUniqueMetrics_def Let_def toFixed2_ok percentage_sum_ok)

lemma period_entry_ok: "ratio_ok (tm_approvalRate (period_entry e)) (tm_total (period_entry e))"
  by (cases e) (simp add: period_entry_def Let_def calculateUniqueMetrics_ok)

lemma day_psp_entry_ok:
  "ratio_ok (pd_approvalRatio (day_psp_entry js P)) (pd_total (day_psp_entry js P))"
  by (simp add: day_psp_entry_def Let_def toFixed2_ok percentage_sum_ok)

lemma processTimeGroupWithPSPs_ok:
  "ratio_ok (tm_approvalRate (processTimeGroupWithPSPs e)) (tm_total (processTimeGroupWithPSPs e)) \<and>
   (\<forall>(P, b)\<in>set (tm_pspBreakdown (processTimeGroupWithPSPs e)).
      ratio_ok (pd_approvalRatio b) (pd_total b))"
proof (cases e)
  case (Pair d js)
  have 1: "ratio_ok (tm_approvalRate (processTimeGroupWithPSPs e)) (tm_total (processTimeGroupWithPSPs e))"
    by (simp add: Pair processTimeGroupWithPSPs_def Let_def calculateUniqueMetrics_ok)
  have 2: "\<forall>(P, b)\<in>set (tm_pspBreakdown (processTimeGroupWithPSPs e)).
      ratio_ok (pd_approvalRatio b) (pd_total b)"
  proof (intro ballI, clarify)
    fix P b assume "(P, b) \<in> set (tm_pspBreakdown (processTimeGroupWithPSPs e))"
    then have "(P, b) \<in> set (foldl (\<lambda>pb pspName. set_entry pspName (day_psp_entry js pspName) pb) []
        (foldl (\<lambda>s j. foldl set_add s (j_pspsInvolved j)) [] js))"
      by (simp add: Pair processTimeGroupWithPSPs_def Let_def)
    from set_foldl_set_entry [OF this] obtain P' where "b = day_psp_entry js P'" by auto
    then show "ratio_ok (pd_approvalRatio b) (pd_total b)"
      by (simp add: day_psp_entry_ok)
  qed
  from 1 2 show ?thesis by blast
qed

lemma time_ratios:
  "(\<forall>p\<in>set (daily (analyzeTimeData localeCompare txs)).
      ratio_ok (tm_approvalRate p) (tm_total p) \<and>
      (\<forall>(P, b)\<in>set (tm_pspBreakdown p). ratio_ok (pd_approvalRatio b) (pd_total b))) \<and>
   (\<forall>p\<in>set (weekly (analyzeTimeData localeCompare txs)). ratio_ok (tm_approvalRate p) (tm_total p)) \<and>
   (\<forall>p\<in>set (monthly (analyzeTimeData localeCompare txs)). ratio_ok (tm_approvalRate p) (tm_total p))"
proof (cases "filter has_valid_date txs = []")
  case True
  then show ?thesis by (simp add: analyzeTimeData_def)
next
  case False
  then have d: "set (daily (analyzeTimeData localeCompare txs)) \<subseteq> range processTimeGroupWithPSPs"
    and w: "set (weekly (analyzeTimeData localeCompare txs)) \<subseteq> range period_entry"
    and m: "set (monthly (analyzeTimeData localeCompare txs)) \<subseteq> range period_entry"
    by (auto simp: analyzeTimeData_def Let_def set_js_sort)
  have 1: "\<forall>p\<in>set (daily (analyzeTimeData localeCompare txs)).
      ratio_ok (tm_approvalRate p) (tm_total p) \<and>
      (\<forall>(P, b)\<in>set (tm_pspBreakdown p). ratio_ok (pd_approvalRatio b) (pd_total b))"
    using d processTimeGroupWithPSPs_ok by blast
  have 2: "\<forall>p\<in>set (weekly (analyzeTimeData localeCompare txs)). ratio_ok (tm_approvalRate p) (tm_total p)"
    using w period_entry_ok by blast
  have 3: "\<forall>p\<in>set (monthly (analyzeTimeData localeCompare txs)). ratio_ok (tm_approvalRate p) (tm_total p)"
    using m period_entry_ok by blast
  from 1 2 3 show ?thesis by (intro conjI)
qed

text \<open>
  C5. Every ratio that \<^verbatim>\<open>improvedAnalyzeData\<close>, \<^verbatim>\<open>recalculateWithPSPExclusions\<close>,
  \<^verbatim>\<open>analyzeData\<close> and \<^verbatim>\<open>analyzeTimeData\<close> compute is a number (neither \<^verbatim>\<open>NaN\<close> nor
  \<^verbatim>\<open>Infinity\<close>) between 0 and 100, and it is 0 when its denominator is 0. Numbers are
  exact rationals here; \<open>ratio_ok x d\<close> says both things of the ratio \<open>x\<close> with
  denominator \<open>d\<close>.
\<close>

theorem C5_ratio_bounds:
  "ratio_ok (weightedSuccessRate (pspLevel (improvedAnalyzeData now txs)))
     (totalProcessedTransactions (pspLevel (improvedAnalyzeData now txs))) \<and>
   ratio_ok (weightedSuccessRate (transactionLevel (improvedAnalyzeData now txs)))
     (totalProcessedTransactions (transactionLevel (improvedAnalyzeData now txs))) \<and>
   (\<forall>(P, s)\<in>set (pspStats (pspLevel (improvedAnalyzeData now txs))).
      ratio_ok (ps_individualApprovalRate s) (ps_totalAttempts s) \<and>
      ratio_ok (ps_trueApprovalRate s) (ps_uniqueApproved s + ps_uniqueDeclined s)) \<and>
   (\<forall>(c, b)\<in>set (countryBreakdown (transactionLevel (improvedAnalyzeData now txs))).
      ratio_ok (cb_successRate b) (cb_totalProcessedTransactions b) \<and>
      (\<forall>(P, pb)\<in>set (cb_pspBreakdown b). ratio_ok (pb_successRate pb) (pb_totalTransactions pb))) \<and>
   ratio_ok (weightedSuccessRate (recalculateWithPSPExclusions (improvedAnalyzeData now txs) E))
     (totalProcessedTransactions (recalculateWithPSPExclusions (improvedAnalyzeData now txs) E)) \<and>
   (\<forall>(P, s)\<in>set (pspAnalysis (analyzeData localeCompare txs)).
      ratio_ok (st_approvalRatio s) (st_approved s + st_declined s) \<and>
      ratio_ok (st_declineRatio s) (st_approved s + st_declined s)) \<and>
   (\<forall>(c, cs)\<in>set (countryAnalysis (analyzeData localeCompare txs)).
      ratio_ok (st_approvalRatio cs) (st_approved cs + st_declined cs) \<and>
      ratio_ok (st_declineRatio cs) (st_approved cs + st_declined cs) \<and>
      (\<forall>(P, s)\<in>set (st_pspBreakdown cs).
         ratio_ok (st_approvalRatio s) (st_approved s + st_declined s) \<and>
         ratio_ok (st_declineRatio s) (st_approved s + st_declined s))) \<and>
   ratio_ok (overallApprovalRate (analyzeData localeCompare txs))
     (sum_list (map (\<lambda>(P, s). st_approved s) (pspAnalysis (analyzeData localeCompare txs))) +
      sum_list (map (\<lambda>(P, s). st_declined s) (pspAnalysis (analyzeData localeCompare txs)))) \<and>
   (\<forall>p\<in>set (daily (analyzeTimeData localeCompare txs)).
      ratio_ok (tm_approvalRate p) (tm_total p) \<and>
      (\<forall>(P, b)\<in>set (tm_pspBreakdown p). ratio_ok (pd_approvalRatio b) (pd_total b))) \<and>
   (\<forall>p\<in>set (weekly (analyzeTimeData localeCompare txs)). ratio_ok (tm_approvalRate p) (tm_total p)) \<and>
   (\<forall>p\<in>set (monthly (analyzeTimeData localeCompare txs)). ratio_ok (tm_approvalRate p) (tm_total p))"
proof -
  note i = improved_ratios [of now txs]
  note a = analyze_ratios [of localeCompare txs]
  note t = time_ratios [of localeCompare txs]
  show ?thesis
    by (rule conjI [OF i [THEN conjunct2, THEN conjunct1]
          conjI [OF i [THEN conjunct2, THEN conjunct2, THEN conjunct1]
          conjI [OF i [THEN conjunct1]
          conjI [OF i [THEN conjunct2, THEN conjunct2, THEN conjunct2]
          conjI [OF recalc_ratio
          conjI [OF a [THEN conjunct1]
          conjI [OF a [THEN conjunct2, THEN conjunct1]
          conjI [OF a [THEN conjunct2, THEN conjunct2]
          conjI [OF t [THEN conjunct1]
          conjI [OF t [THEN conjunct2, THEN conjunct1]
            t [THEN conjunct2, THEN conjunct2]]]]]]]]]]])
qed

theorem C5_witness:
  "totalProcessedTransactions (pspLevel (improvedAnalyzeData epoch [])) = 0 \<and>
   weightedSuccessRate (pspLevel (improvedAnalyzeData epoch [])) = Num 0 \<and>
   ratio_ok (weightedSuccessRate (pspLevel (improvedAnalyzeData epoch spec_example)))
     (totalProcessedTransactions (pspLevel (improvedAnalyzeData epoch spec_example))) \<and>
   weightedSuccessRate (pspLevel (improvedAnalyzeData epoch spec_example)) = Num (200 / 3) \<and>
   list_all (\<lambda>(P, s).
       ratio_ok (ps_individualApprovalRate s) (ps_totalAttempts s) \<and>
       ratio_ok (ps_trueApprovalRate s) (ps_uniqueApproved s + ps_uniqueDeclined s))
     (pspStats (pspLevel (improvedAnalyzeData epoch spec_example))) \<and>
   map (\<lambda>(P, s). (ps_individualApprovalRate s, ps_trueApprovalRate s))
     (pspStats (pspLevel (improvedAnalyzeData epoch spec_example))) =
     [(Num 50, Num 50), (Num 100, Num 100)] \<and>
   weightedSuccessRate (recalculateWithPSPExclusions (improvedAnalyzeData epoch spec_example) [''B'']) =
     Num 50 \<and>
   overallApprovalRate (analyzeData (\<lambda>a b. 0) spec_example) = Num (6667 / 100)"
proof -
  note e = C5_ratio_bounds [of epoch "[]" "[]" "\<lambda>a b. 0"]
  note x = C5_ratio_bounds [of epoch spec_example "[''B'']" "\<lambda>a b. 0"]
  have w1: "totalProcessedTransactions (pspLevel (improvedAnalyzeData epoch [])) = 0"
    by code_simp
  have w2: "weightedSuccessRate (pspLevel (improvedAnalyzeData epoch [])) = Num 0"
    using e [THEN conjunct1] w1 by (simp add: ratio_ok_def)
  have w3: "ratio_ok (weightedSuccessRate (pspLevel (improvedAnalyzeData epoch spec_example)))
     (totalProcessedTransactions (pspLevel (improvedAnalyzeData epoch spec_example)))"
    by (rule x [THEN conjunct1])
  have w4: "weightedSuccessRate (pspLevel (improvedAnalyzeData epoch spec_example)) = Num (200 / 3)"
    by code_simp
  have w5: "list_all (\<lambda>(P, s).
       ratio_ok (ps_individualApprovalRate s) (ps_totalAttempts s) \<and>
       ratio_ok (ps_trueApprovalRate s) (ps_uniqueApproved s + ps_uniqueDeclined s))
     (pspStats (pspLevel (improvedAnalyzeData epoch spec_example)))"
    unfolding list_all_iff by (rule x [THEN conjunct2, THEN conjunct2, THEN conjunct1])
  have w6: "map (\<lambda>(P, s). (ps_individualApprovalRate s, ps_trueApprovalRate s))
     (pspStats (pspLevel (improvedAnalyzeData epoch spec_example))) =
     [(Num 50, Num 50), (Num 100, Num 100)]"
    by code_simp
  have w7: "weightedSuccessRate (recalculateWithPSPExclusions (improvedAnalyzeData epoch spec_example) [''B'']) =
     Num 50"
    by code_simp
  have w8: "overallApprovalRate (analyzeData (\<lambda>a b. 0) spec_example) = Num (6667 / 100)"
    by code_simp
  show ?thesis
    by (rule conjI [OF w1 conjI [OF w2 conjI [OF w3 conjI [OF w4 conjI [OF w5
          conjI [OF w6 conjI [OF w7 w8]]]]]]])
qed

end
